theory Spec2Isabelle
  imports Main "HOL-Library.Word"
begin

section \<open>Voice-call coordination core: streaming synthesis relay and call manager\<close>

text \<open>
  A shallow embedding of the streaming text-to-speech relay (class
  \<open>StreamingTtsPipeline\<close>), of the call manager's answer-time greeting hook
  (\<open>CallManager.maybeSpeakInitialMessageOnAnswered\<close>) and of the event processor and
  call state machine that the call manager delegates to. The relay and the hook are
  translated from their sources. The event processor (\<open>manager/events.ts\<close>), the
  outbound controller (\<open>manager/outbound.ts\<close>) and the type declarations
  (\<open>types.ts\<close>) are not among the sources; they are modelled from the specification,
  and each such definition says so.

  JavaScript strings are sequences of UTF-16 code units; a \<open>Buffer\<close> is a sequence
  of bytes. The methods of the collaborators (the socket's \<open>send\<close> and \<open>close\<close>, the
  media stream handler's \<open>sendAudio\<close>, \<open>sendMark\<close> and \<open>clearAudio\<close>) are taken to
  return normally.
\<close>

type_synonym jsstring = "16 word list"
type_synonym byte = "8 word"
type_synonym buffer = "byte list"

subsection \<open>The relay's state\<close>

text \<open>\<open>const CHUNK_SIZE = 640\<close> (640 bytes = 80ms at 8kHz ulaw).\<close>

definition CHUNK_SIZE :: nat where
  "CHUNK_SIZE = 640"

text \<open>The \<open>readyState\<close> of the WebSocket object.\<close>

datatype ready_state = CONNECTING | OPEN | CLOSING | CLOSED

text \<open>
  The three JSON messages the relay sends on the socket: the begin-of-stream message
  \<open>{text: " ", voice_settings}\<close>, a text chunk \<open>{text, try_trigger_generation: true}\<close>
  and the end-of-stream message \<open>{text: ""}\<close>.
\<close>

datatype ws_message = Bos | TextMsg jsstring | Eos

text \<open>
  Everything the relay does to its collaborators, in the order it does it: the
  WebSocket (\<open>new WebSocket\<close>, \<open>send\<close>, \<open>close\<close>), the media stream handler
  (\<open>sendAudio\<close>, \<open>sendMark\<close>, \<open>clearAudio\<close>, each with the stream id) and the
  settling of the completion promise. The name of the mark embeds \<open>Date.now()\<close> and is
  left out.
\<close>

datatype effect =
    WsConnect
  | WsSend ws_message
  | WsClose
  | SendAudio jsstring buffer
  | SendMark jsstring
  | ClearAudio jsstring
  | CompletionResolved

text \<open>
  The fields of the class. \<open>wsNull\<close> is \<open>this.ws === null\<close>; \<open>readyState\<close> is the
  state of the socket object created by \<open>connect\<close> (the object outlives
  \<open>this.ws = null\<close>: its listeners stay registered). \<open>completion\<close> is the state of
  \<open>completionPromise\<close> (\<open>True\<close> once resolved). \<open>eosOnOpen\<close> counts the additional
  \<open>open\<close> listeners that \<open>flush\<close> registers on the socket. \<open>effects\<close> is the log of
  collaborator calls.
\<close>

record pipeline =
  streamSid :: jsstring
  wsNull :: bool
  readyState :: ready_state
  aborted :: bool
  flushed :: bool
  wsReady :: bool
  pendingChunks :: "jsstring list"
  completion :: bool
  audioLeftover :: buffer
  eosOnOpen :: nat
  effects :: "effect list"

definition emit :: "effect \<Rightarrow> pipeline \<Rightarrow> pipeline" where
  "emit e s = s\<lparr>effects := effects s @ [e]\<rparr>"

text \<open>
  \<open>this.completionResolve?.()\<close>: the resolve function of the promise created in the
  constructor. A promise settles once; calling its resolve function again does nothing.
\<close>

definition completionResolve :: "pipeline \<Rightarrow> pipeline" where
  "completionResolve s =
     (if completion s then s else emit CompletionResolved (s\<lparr>completion := True\<rparr>))"

text \<open>
  The constructor: the field initialisers, the promise, then \<open>connect()\<close>, which creates
  the socket (in state \<open>CONNECTING\<close>) and registers the four listeners.
\<close>

definition init :: "jsstring \<Rightarrow> pipeline" where
  "init sid =
     \<lparr>streamSid = sid, wsNull = False, readyState = CONNECTING, aborted = False,
      flushed = False, wsReady = False, pendingChunks = [], completion = False,
      audioLeftover = [], eosOnOpen = 0, effects = [WsConnect]\<rparr>"

subsection \<open>Private methods\<close>

text \<open>\<open>ws.close()\<close> on the socket object: the closing handshake starts.\<close>

definition wsClose :: "pipeline \<Rightarrow> pipeline" where
  "wsClose s =
     emit WsClose (s\<lparr>readyState := (if readyState s = CLOSED then CLOSED else CLOSING)\<rparr>)"

definition sendText :: "jsstring \<Rightarrow> pipeline \<Rightarrow> pipeline" where
  "sendText text s =
     (if wsNull s \<or> readyState s \<noteq> OPEN then s else emit (WsSend (TextMsg text)) s)"

definition sendEos :: "pipeline \<Rightarrow> pipeline" where
  "sendEos s =
     (if wsNull s \<or> readyState s \<noteq> OPEN then s else emit (WsSend Eos) s)"

text \<open>
  \<open>sendAudioChunks\<close>: the \<open>while (buf.length >= CHUNK_SIZE)\<close> loop, on the local
  \<open>buf\<close>, then the assignment to \<open>audioLeftover\<close>.
\<close>

function chunkLoop :: "buffer \<Rightarrow> pipeline \<Rightarrow> pipeline" where
  "chunkLoop buf s =
     (if CHUNK_SIZE \<le> length buf
      then chunkLoop (drop CHUNK_SIZE buf) (emit (SendAudio (streamSid s) (take CHUNK_SIZE buf)) s)
      else s\<lparr>audioLeftover := buf\<rparr>)"
  by pat_completeness auto
termination
  by (relation "measure (\<lambda>(buf, s). length buf)") (auto simp: CHUNK_SIZE_def)

declare chunkLoop.simps [simp del]

definition sendAudioChunks :: "buffer \<Rightarrow> pipeline \<Rightarrow> pipeline" where
  "sendAudioChunks audio s = chunkLoop (audioLeftover s @ audio) s"

definition sendRemainingAudio :: "pipeline \<Rightarrow> pipeline" where
  "sendRemainingAudio s =
     (if 0 < length (audioLeftover s)
      then (emit (SendAudio (streamSid s) (audioLeftover s)) s)\<lparr>audioLeftover := []\<rparr>
      else s)"

subsection \<open>Socket listeners\<close>

text \<open>The \<open>for (const chunk of this.pendingChunks)\<close> loop of the \<open>open\<close> listener.\<close>

primrec sendTexts :: "jsstring list \<Rightarrow> pipeline \<Rightarrow> pipeline" where
  "sendTexts [] s = s"
| "sendTexts (chunk # chunks) s = sendTexts chunks (sendText chunk s)"

text \<open>
  The \<open>open\<close> listener registered by \<open>connect\<close>. \<open>this.ws!.send\<close> on a null
  \<open>this.ws\<close> would raise a TypeError and end the listener; \<open>this.ws\<close> is null only
  after \<open>abort\<close>, so that branch is behind the \<open>aborted\<close> test.
\<close>

definition onOpen :: "pipeline \<Rightarrow> pipeline" where
  "onOpen s =
     (if aborted s then (if wsNull s then s else wsClose s)
      else if wsNull s then s
      else
        (let s1 = emit (WsSend Bos) s;
             s2 = s1\<lparr>wsReady := True\<rparr>;
             s3 = sendTexts (pendingChunks s2) s2
         in s3\<lparr>pendingChunks := []\<rparr>))"

text \<open>The \<open>open\<close> listeners registered by \<open>flush\<close>, each calling \<open>sendEos\<close>.\<close>

primrec runEosListeners :: "nat \<Rightarrow> pipeline \<Rightarrow> pipeline" where
  "runEosListeners 0 s = s"
| "runEosListeners (Suc n) s = runEosListeners n (sendEos s)"

text \<open>
  The data of a \<open>message\<close> event, as the listener's \<open>try\<close> block sees it: either
  processing it throws (invalid JSON, a JSON \<open>null\<close>, a truthy \<open>audio\<close> that
  \<open>Buffer.from\<close> rejects), or it is an object with a falsy or a base64 \<open>audio\<close>
  (here already decoded) and a falsy or truthy \<open>isFinal\<close>.
\<close>

datatype ws_data = Malformed | Msg "buffer option" bool

definition onMessage :: "ws_data \<Rightarrow> pipeline \<Rightarrow> pipeline" where
  "onMessage data s =
     (if aborted s then s
      else case data of
        Malformed \<Rightarrow> s
      | Msg audio isFinal \<Rightarrow>
          (let s1 = (case audio of None \<Rightarrow> s | Some audioBuf \<Rightarrow> sendAudioChunks audioBuf s)
           in if isFinal
              then completionResolve (emit (SendMark (streamSid s1)) (sendRemainingAudio s1))
              else s1))"

definition onError :: "pipeline \<Rightarrow> pipeline" where
  "onError s = completionResolve s"

definition onClose :: "pipeline \<Rightarrow> pipeline" where
  "onClose s = completionResolve (sendRemainingAudio s)"

subsection \<open>Public methods\<close>

definition feedTokens :: "jsstring \<Rightarrow> pipeline \<Rightarrow> pipeline" where
  "feedTokens tokens s =
     (if aborted s then s
      else if \<not> wsReady s then s\<lparr>pendingChunks := pendingChunks s @ [tokens]\<rparr>
      else sendText tokens s)"

definition flush :: "pipeline \<Rightarrow> pipeline" where
  "flush s =
     (if aborted s \<or> flushed s then s
      else
        (let s1 = s\<lparr>flushed := True\<rparr>
         in if \<not> wsReady s1
            then (if \<not> wsNull s1 then s1\<lparr>eosOnOpen := Suc (eosOnOpen s1)\<rparr> else s1)
            else sendEos s1))"

definition abort :: "pipeline \<Rightarrow> pipeline" where
  "abort s =
     (if aborted s then s
      else
        (let s1 = s\<lparr>aborted := True, pendingChunks := []\<rparr>;
             s2 = (if \<not> wsNull s1 \<and> readyState s1 = OPEN then wsClose s1 else s1);
             s3 = s2\<lparr>wsNull := True\<rparr>;
             s4 = emit (ClearAudio (streamSid s3)) s3
         in completionResolve s4))"

text \<open>\<open>waitForCompletion\<close> returns the promise; here, whether it has resolved.\<close>

definition waitForCompletion :: "pipeline \<Rightarrow> bool" where
  "waitForCompletion s = completion s"

subsection \<open>Runs of a relay instance\<close>

text \<open>
  What can happen to an instance: the socket emits \<open>open\<close>, \<open>message\<close>, \<open>error\<close>
  or \<open>close\<close>, or a caller invokes a public method. The socket emits \<open>open\<close> when it
  leaves \<open>CONNECTING\<close> for \<open>OPEN\<close>, hence at most once, and \<open>close\<close> when it
  becomes \<open>CLOSED\<close>. Listeners of one event run in the order of registration.
\<close>

datatype event =
    Open
  | Message ws_data
  | Error
  | Close
  | FeedTokens jsstring
  | Flush
  | Abort

fun step :: "event \<Rightarrow> pipeline \<Rightarrow> pipeline" where
  "step Open s =
     (if readyState s = CONNECTING
      then (let s1 = onOpen (s\<lparr>readyState := OPEN\<rparr>) in runEosListeners (eosOnOpen s1) s1)
      else s)"
| "step (Message data) s = onMessage data s"
| "step Error s = onError s"
| "step Close s = onClose (s\<lparr>readyState := CLOSED\<rparr>)"
| "step (FeedTokens tokens) s = feedTokens tokens s"
| "step Flush s = flush s"
| "step Abort s = abort s"

definition run :: "event list \<Rightarrow> pipeline \<Rightarrow> pipeline" where
  "run evs s = fold step evs s"

text \<open>Observations on the log.\<close>

definition sentAudio :: "pipeline \<Rightarrow> buffer list" where
  "sentAudio s = [b. SendAudio sid b \<leftarrow> effects s]"

definition wsSent :: "pipeline \<Rightarrow> ws_message list" where
  "wsSent s = [m. WsSend m \<leftarrow> effects s]"



text \<open>
  The text a call feeds to the relay, and the calls of a text producer that are not an
  abort.
\<close>

fun textOf :: "event \<Rightarrow> jsstring list" where
  "textOf (FeedTokens tokens) = [tokens]"
| "textOf e = []"

fun preReadyCall :: "event \<Rightarrow> bool" where
  "preReadyCall (FeedTokens tokens) = True"
| "preReadyCall Flush = True"
| "preReadyCall e = False"

text \<open>
  An invariant of the states an instance can reach: \<open>this.ws\<close> is null exactly after
  an abort; an aborted instance has resolved its promise; \<open>wsReady\<close> is set only once
  the socket has left \<open>CONNECTING\<close>; the end-of-stream messages sent, plus the
  listeners of \<open>flush\<close> still waiting for \<open>open\<close>, are at most one, and none before
  \<open>flush\<close>; the promise has settled once if it is resolved and never otherwise; and the
  socket was created once.
\<close>

definition relayInv :: "pipeline \<Rightarrow> bool" where
  "relayInv s \<longleftrightarrow>
     (aborted s \<longleftrightarrow> wsNull s)
     \<and> (aborted s \<longrightarrow> completion s)
     \<and> (wsReady s \<longrightarrow> readyState s \<noteq> CONNECTING)
     \<and> count_list (effects s) (WsSend Eos)
          + (if readyState s = CONNECTING then eosOnOpen s else 0)
         \<le> (if flushed s then 1 else 0)
     \<and> count_list (effects s) CompletionResolved = (if completion s then 1 else 0)
     \<and> count_list (effects s) WsConnect = 1"

text \<open>
  The events that end a relay's stream: a message with a truthy \<open>isFinal\<close>, the
  socket's \<open>error\<close> and its \<open>close\<close>.
\<close>

fun terminating :: "event \<Rightarrow> bool" where
  "terminating (Message (Msg audio isFinal)) = isFinal"
| "terminating Error = True"
| "terminating Close = True"
| "terminating e = False"

subsection \<open>The call manager\<close>

text \<open>
  String literals of the source, as code units (all of them ASCII).
\<close>

definition utf16 :: "string \<Rightarrow> jsstring" where
  "utf16 cs = map (\<lambda>c. of_nat (of_char c)) cs"

text \<open>
  \<open>String.prototype.trim\<close> removes ECMAScript white space and line terminators from
  both ends: TAB, LF, VT, FF, CR, SP, NBSP, the other space separators (U+1680,
  U+2000 to U+200A, U+202F, U+205F, U+3000), LS, PS and the byte order mark.
\<close>

definition jsWhiteSpace :: "16 word list" where
  "jsWhiteSpace =
     [0x0009, 0x000A, 0x000B, 0x000C, 0x000D, 0x0020, 0x00A0, 0x1680,
      0x2000, 0x2001, 0x2002, 0x2003, 0x2004, 0x2005, 0x2006, 0x2007, 0x2008, 0x2009, 0x200A,
      0x2028, 0x2029, 0x202F, 0x205F, 0x3000, 0xFEFF]"

definition trim :: "jsstring \<Rightarrow> jsstring" where
  "trim str =
     rev (dropWhile (\<lambda>c. c \<in> set jsWhiteSpace) (rev (dropWhile (\<lambda>c. c \<in> set jsWhiteSpace) str)))"

text \<open>
  A value found in \<open>call.metadata\<close> (a record of unknown values): undefined, a string, or
  a value of another type.
\<close>

datatype js_value = JUndefined | JString jsstring | JOther

text \<open>
  Modelled from the spec: the types \<open>CallId\<close> and \<open>CallRecord\<close> (declared in
  \<open>types.ts\<close>, which is not among the sources), from the data model of the
  specification: an opaque call identifier, and a record with \<open>callId\<close>,
  \<open>providerCallId\<close> (absent before confirmation), \<open>direction\<close>, \<open>status\<close>,
  \<open>endedAt\<close> and \<open>endReason\<close> (null until the call ends) and \<open>metadata\<close> (an opaque
  key/value map). The participants, the start time and the transcript play no role here
  and are left out.
\<close>

type_synonym callId = nat

datatype direction = Outbound | Inbound

datatype call_status = Initiated | Ringing | Dialing | Answered | Ended

datatype end_reason = CallerHangup | ProviderError | MaxDuration | Manual | Rejected

record call_record =
  callId :: callId
  providerCallId :: "jsstring option"
  direction :: direction
  status :: call_status
  endedAt :: "nat option"
  endReason :: "end_reason option"
  metadata :: "(jsstring \<rightharpoonup> js_value) option"

text \<open>
  Of a telephony provider (\<open>VoiceCallProvider\<close>) the manager reads the \<open>name\<close>.
\<close>

record provider =
  name :: jsstring

text \<open>
  The lifecycle hooks of the context (\<open>CallManagerHooks\<close>), as a log of invocations
  (the transcript entry of \<open>onTranscriptEntry\<close> is left out).
\<close>

datatype hook_call =
    OnCallAnswered call_record
  | OnCallStartTranscript call_record
  | OnTranscriptEntry call_record
  | OnCallEnded call_record

text \<open>
  The state of \<open>CallManager\<close> that \<open>getContext\<close> shares with the helper modules
  (\<open>CallManagerRuntimeState\<close> and the provider), the log of hook invocations and the
  log of \<open>speakInitialMessage\<close> invocations. \<open>nextCallId\<close> stands for the generator of
  call identifiers (generated at call creation, never reused). The configuration, the
  paths, the timers, the transcript waiters and the active turns are left out.
\<close>

record manager =
  activeCalls :: "callId \<rightharpoonup> call_record"
  providerCallIdMap :: "jsstring \<rightharpoonup> callId"
  processedEventIds :: "jsstring set"
  rejectedProviderCallIds :: "jsstring set"
  provider :: "provider option"
  nextCallId :: callId
  hookCalls :: "hook_call list"
  speakInitialMessageCalls :: "jsstring list"

text \<open>
  \<open>void this.speakInitialMessage(call.providerCallId)\<close>: the call is started and not
  awaited; what it does is in \<open>manager/outbound.ts\<close>. The invocation is recorded.
\<close>

definition speakInitialMessage :: "jsstring \<Rightarrow> manager \<Rightarrow> manager" where
  "speakInitialMessage pid mgr =
     mgr\<lparr>speakInitialMessageCalls := speakInitialMessageCalls mgr @ [pid]\<rparr>"

text \<open>\<open>call.metadata?.initialMessage\<close>: undefined without metadata or without the key.\<close>

definition initialMessageOf :: "call_record \<Rightarrow> js_value" where
  "initialMessageOf call =
     (case metadata call of
        None \<Rightarrow> JUndefined
      | Some m \<Rightarrow> (case m (utf16 ''initialMessage'') of None \<Rightarrow> JUndefined | Some v \<Rightarrow> v))"

definition maybeSpeakInitialMessageOnAnswered :: "manager \<Rightarrow> call_record \<Rightarrow> manager" where
  "maybeSpeakInitialMessageOnAnswered mgr call =
     (let initialMessage = (case initialMessageOf call of JString str \<Rightarrow> trim str | _ \<Rightarrow> [])
      in if initialMessage = [] then mgr
         else case provider mgr of
           None \<Rightarrow> mgr
         | Some p \<Rightarrow>
             (case providerCallId call of
                None \<Rightarrow> mgr
              | Some pid \<Rightarrow>
                  if pid = [] then mgr
                  else if name p = utf16 ''twilio'' then mgr
                  else speakInitialMessage pid mgr))"

text \<open>
  The hook that \<open>getContext\<close> installs:
  \<open>onCallAnswered: (call) => { this.maybeSpeakInitialMessageOnAnswered(call); }\<close>.
\<close>

definition onCallAnswered :: "manager \<Rightarrow> call_record \<Rightarrow> manager" where
  "onCallAnswered mgr call = maybeSpeakInitialMessageOnAnswered mgr call"

text \<open>A manager and a call record to run the hook on.\<close>

definition exampleManager :: "string \<Rightarrow> manager" where
  "exampleManager providerName =
     \<lparr>activeCalls = Map.empty, providerCallIdMap = Map.empty, processedEventIds = {},
      rejectedProviderCallIds = {}, provider = Some \<lparr>name = utf16 providerName\<rparr>,
      nextCallId = 0, hookCalls = [], speakInitialMessageCalls = []\<rparr>"

definition exampleCall :: "js_value \<Rightarrow> call_record" where
  "exampleCall greeting =
     \<lparr>callId = 0, providerCallId = Some (utf16 ''CA1''), direction = Outbound,
      status = Answered, endedAt = None, endReason = None,
      metadata = Some [utf16 ''initialMessage'' \<mapsto> greeting]\<rparr>"

subsection \<open>The event processor and the call state machine\<close>

text \<open>
  Modelled from the spec: the type \<open>NormalizedEvent\<close> (declared in \<open>types.ts\<close>, which
  is not among the sources): \<open>eventId\<close>, \<open>providerCallId\<close>, \<open>kind\<close> and \<open>payload\<close>.
  The kinds are those the specification names (answered, ended, media-ready,
  transcript-chunk, error), the two behind its ellipsis that report the states ringing
  and dialing, and any other kind. Of the payload, the model keeps the internal call
  identifier that the first confirmation of an outbound call refers to, the direction of
  the call, and the time and the reason of an end.
\<close>

datatype event_kind =
    KRinging
  | KDialing
  | KAnswered
  | KEnded
  | KMediaReady
  | KTranscriptChunk
  | KError
  | KOther jsstring

record normalized_event =
  eventId :: jsstring
  eventProviderCallId :: jsstring
  kind :: event_kind
  payloadCallId :: "callId option"
  payloadDirection :: direction
  payloadTimestamp :: nat
  payloadEndReason :: end_reason

text \<open>
  Modelled from the spec: the state machine of the call manager (in
  \<open>manager/events.ts\<close>, which is not among the sources). The states are ordered
  \<open>initiated\<close>, then \<open>ringing\<close> or \<open>dialing\<close>, then \<open>answered\<close>, then \<open>ended\<close>. No
  transition may move a record backward; attempting it is a no-op, not an error. The
  terminal state carries an end reason, and \<open>endedAt\<close> is set at most once.
\<close>

fun statusRank :: "call_status \<Rightarrow> nat" where
  "statusRank Initiated = 0"
| "statusRank Ringing = 1"
| "statusRank Dialing = 1"
| "statusRank Answered = 2"
| "statusRank Ended = 3"

text \<open>
  Modelled from the spec: a transition of a call record to a new status. A record that
  has ended, or a new status behind the current one, leaves the record as it is.
\<close>

definition transitionTo :: "call_status \<Rightarrow> nat \<Rightarrow> end_reason \<Rightarrow> call_record \<Rightarrow> call_record" where
  "transitionTo new now reason call =
     (if status call = Ended \<or> statusRank new < statusRank (status call) then call
      else if new = Ended
        then call\<lparr>status := Ended, endedAt := Some now, endReason := Some reason\<rparr>
      else call\<lparr>status := new\<rparr>)"

text \<open>
  Modelled from the spec: the status a kind of event implies. The kinds that imply none
  (media-ready, transcript-chunk, error) act on media, transcripts and waiters, which are
  outside this model; unknown kinds are logged and dropped.
\<close>

fun impliedStatus :: "event_kind \<Rightarrow> call_status option" where
  "impliedStatus KRinging = Some Ringing"
| "impliedStatus KDialing = Some Dialing"
| "impliedStatus KAnswered = Some Answered"
| "impliedStatus KEnded = Some Ended"
| "impliedStatus k = None"

text \<open>
  Invoking a hook of the context. \<open>onCallAnswered\<close> is the function that \<open>getContext\<close>
  installs; the other hooks write the transcript file, which is outside this model, and
  are only recorded.
\<close>

fun invokeHook :: "hook_call \<Rightarrow> manager \<Rightarrow> manager" where
  "invokeHook (OnCallAnswered call) ctx =
     onCallAnswered (ctx\<lparr>hookCalls := hookCalls ctx @ [OnCallAnswered call]\<rparr>) call"
| "invokeHook h ctx = ctx\<lparr>hookCalls := hookCalls ctx @ [h]\<rparr>"

text \<open>
  Modelled from the spec: applying a transition to an active call and invoking the hooks
  of the call manager: on transition into \<open>answered\<close>, \<open>onCallAnswered\<close> and
  \<open>onCallStartTranscript\<close>; on transition into \<open>ended\<close>, \<open>onCallEnded\<close> (the timers,
  waiters and turns cancelled there are outside this model).
\<close>

definition applyTransition ::
    "callId \<Rightarrow> call_status \<Rightarrow> nat \<Rightarrow> end_reason \<Rightarrow> manager \<Rightarrow> manager" where
  "applyTransition cid new now reason ctx =
     (case activeCalls ctx cid of
        None \<Rightarrow> ctx
      | Some call \<Rightarrow>
          (let call' = transitionTo new now reason call;
               ctx1 = ctx\<lparr>activeCalls := (activeCalls ctx)(cid \<mapsto> call')\<rparr>
           in if status call' = status call then ctx1
              else if status call' = Answered
                then invokeHook (OnCallStartTranscript call') (invokeHook (OnCallAnswered call') ctx1)
              else if status call' = Ended then invokeHook (OnCallEnded call') ctx1
              else ctx1))"

text \<open>
  Modelled from the spec: resolving the call of an event (in \<open>manager/events.ts\<close>):
  through \<open>providerCallIdMap\<close>, or by registering a new mapping on the first
  confirmation of an outbound call, or by creating a new record for an inbound call,
  which enters at \<open>ringing\<close>.
\<close>

definition resolveCall :: "manager \<Rightarrow> normalized_event \<Rightarrow> (callId \<times> manager) option" where
  "resolveCall ctx event =
     (case providerCallIdMap ctx (eventProviderCallId event) of
        Some cid \<Rightarrow> Some (cid, ctx)
      | None \<Rightarrow>
          (case payloadCallId event of
             Some cid \<Rightarrow>
               (case activeCalls ctx cid of
                  None \<Rightarrow> None
                | Some call \<Rightarrow>
                    if direction call = Outbound \<and> providerCallId call = None
                    then Some (cid,
                      ctx\<lparr>activeCalls := (activeCalls ctx)
                             (cid \<mapsto> call\<lparr>providerCallId := Some (eventProviderCallId event)\<rparr>),
                          providerCallIdMap := (providerCallIdMap ctx)
                             (eventProviderCallId event \<mapsto> cid)\<rparr>)
                    else None)
           | None \<Rightarrow>
               if payloadDirection event = Inbound
               then Some (nextCallId ctx,
                 ctx\<lparr>activeCalls := (activeCalls ctx)
                        (nextCallId ctx \<mapsto>
                           \<lparr>callId = nextCallId ctx,
                            providerCallId = Some (eventProviderCallId event),
                            direction = Inbound, status = Ringing, endedAt = None,
                            endReason = None, metadata = None\<rparr>),
                     providerCallIdMap := (providerCallIdMap ctx)
                        (eventProviderCallId event \<mapsto> nextCallId ctx),
                     nextCallId := Suc (nextCallId ctx)\<rparr>)
               else None))"

text \<open>
  Modelled from the spec: \<open>processEvent\<close> of \<open>manager/events.ts\<close> (not among the
  sources), the event processor: if the event's id is in \<open>processedEventIds\<close>, return
  immediately without side effects; otherwise add the id to the dedup set, resolve the
  call, apply the state transition implied by the kind and invoke the corresponding hook.
\<close>

definition processManagerEvent :: "manager \<Rightarrow> normalized_event \<Rightarrow> manager" where
  "processManagerEvent ctx event =
     (if eventId event \<in> processedEventIds ctx then ctx
      else
        (let ctx1 = ctx\<lparr>processedEventIds := insert (eventId event) (processedEventIds ctx)\<rparr>
         in case resolveCall ctx1 event of
              None \<Rightarrow> ctx1
            | Some (cid, ctx2) \<Rightarrow>
                (case impliedStatus (kind event) of
                   None \<Rightarrow> ctx2
                 | Some new \<Rightarrow>
                     applyTransition cid new (payloadTimestamp event) (payloadEndReason event)
                       ctx2)))"

text \<open>
  \<open>CallManager.processEvent\<close>: \<open>processManagerEvent(this.getContext(), event)\<close>. The
  context holds the manager's own maps and sets, not copies.
\<close>

definition processEvent :: "manager \<Rightarrow> normalized_event \<Rightarrow> manager" where
  "processEvent mgr event = processManagerEvent mgr event"

text \<open>
  Modelled from the spec: \<open>endCall\<close> of \<open>manager/outbound.ts\<close> (not among the sources):
  ending an already ended call returns success without provider contact; otherwise the
  provider is asked to hang up (its answer is the argument \<open>hangupOk\<close>) and the call
  transitions to \<open>ended\<close> with the end reason manual. A failed hangup is returned as a
  failure and the record is retained.
\<close>

definition endCall :: "callId \<Rightarrow> nat \<Rightarrow> bool \<Rightarrow> manager \<Rightarrow> bool \<times> manager" where
  "endCall cid now hangupOk ctx =
     (case activeCalls ctx cid of
        None \<Rightarrow> (False, ctx)
      | Some call \<Rightarrow>
          if status call = Ended then (True, ctx)
          else if \<not> hangupOk then (False, ctx)
          else (True, applyTransition cid Ended now Manual ctx))"

text \<open>
  Modelled from the spec: what changes the status of call records, namely events and
  \<open>endCall\<close>, which a maximum-duration timer triggers as well. (\<open>speak\<close> and
  \<open>continueCall\<close> read the status and fail unless it is \<open>answered\<close>.)
\<close>

datatype manager_op = ProcessEvent normalized_event | EndCall callId nat bool

fun managerStep :: "manager_op \<Rightarrow> manager \<Rightarrow> manager" where
  "managerStep (ProcessEvent event) ctx = processEvent ctx event"
| "managerStep (EndCall cid now hangupOk) ctx = snd (endCall cid now hangupOk ctx)"

definition runOps :: "manager_op list \<Rightarrow> manager \<Rightarrow> manager" where
  "runOps ops ctx = fold managerStep ops ctx"

text \<open>
  Call identifiers are never reused: every identifier in use is below the next one to be
  generated.
\<close>

definition freshIds :: "manager \<Rightarrow> bool" where
  "freshIds ctx \<longleftrightarrow> (\<forall>cid call. activeCalls ctx cid = Some call \<longrightarrow> cid < nextCallId ctx)"

text \<open>
  A later state of a call record: its status has not moved backward, and if it had
  ended, its status, end time and end reason are the same.
\<close>

definition laterRecord :: "call_record \<Rightarrow> call_record \<Rightarrow> bool" where
  "laterRecord call call' \<longleftrightarrow>
     statusRank (status call) \<le> statusRank (status call')
     \<and> (status call = Ended \<longrightarrow>
          status call' = Ended \<and> endedAt call' = endedAt call \<and> endReason call' = endReason call)"

text \<open>Events, and a manager holding one ended call, to run the processor on.\<close>

definition exampleEvent :: "string \<Rightarrow> event_kind \<Rightarrow> normalized_event" where
  "exampleEvent eid k =
     \<lparr>eventId = utf16 eid, eventProviderCallId = utf16 ''CA1'', kind = k,
      payloadCallId = None, payloadDirection = Inbound, payloadTimestamp = 5,
      payloadEndReason = CallerHangup\<rparr>"

definition endedCall :: call_record where
  "endedCall = (exampleCall JUndefined)\<lparr>status := Ended, endedAt := Some 3, endReason := Some Manual\<rparr>"

definition endedManager :: manager where
  "endedManager =
     (exampleManager ''plivo'')
       \<lparr>activeCalls := [0 \<mapsto> endedCall], providerCallIdMap := [utf16 ''CA1'' \<mapsto> 0],
        nextCallId := 1\<rparr>"

section \<open>Properties of the streaming relay\<close>

subsection \<open>Audio framing\<close>


lemma chunkLoop_char:
  "\<exists>fs lo. chunkLoop buf s = s\<lparr>audioLeftover := lo, effects := effects s @ map (SendAudio (streamSid s)) fs\<rparr>
      \<and> concat fs @ lo = buf \<and> (\<forall>f\<in>set fs. length f = CHUNK_SIZE) \<and> length lo < CHUNK_SIZE"
proof (induction buf s rule: chunkLoop.induct)
  case (1 buf s)
  show ?case
  proof (cases "CHUNK_SIZE \<le> length buf")
    case False
    then have "chunkLoop buf s = s\<lparr>audioLeftover := buf, effects := effects s @ map (SendAudio (streamSid s)) []\<rparr>"
      by (simp add: chunkLoop.simps [of buf s])
    with False show ?thesis
      by (intro exI [of _ "[]"] exI [of _ buf]) simp
  next
    case True
    let ?s1 = "emit (SendAudio (streamSid s) (take CHUNK_SIZE buf)) s"
    from 1 [OF True] obtain fs lo where
      eq: "chunkLoop (drop CHUNK_SIZE buf) ?s1 =
             ?s1\<lparr>audioLeftover := lo, effects := effects ?s1 @ map (SendAudio (streamSid ?s1)) fs\<rparr>"
      and cat: "concat fs @ lo = drop CHUNK_SIZE buf"
      and len: "\<forall>f\<in>set fs. length f = CHUNK_SIZE"
      and lo: "length lo < CHUNK_SIZE"
      by blast
    have "chunkLoop buf s = chunkLoop (drop CHUNK_SIZE buf) ?s1"
      using True by (simp add: chunkLoop.simps [of buf s])
    also have "\<dots> = s\<lparr>audioLeftover := lo,
        effects := effects s @ map (SendAudio (streamSid s)) (take CHUNK_SIZE buf # fs)\<rparr>"
      unfolding eq by (simp add: emit_def)
    finally have a: "chunkLoop buf s = s\<lparr>audioLeftover := lo,
        effects := effects s @ map (SendAudio (streamSid s)) (take CHUNK_SIZE buf # fs)\<rparr>" .
    have b: "concat (take CHUNK_SIZE buf # fs) @ lo = buf"
      using cat by simp
    have c: "\<forall>f\<in>set (take CHUNK_SIZE buf # fs). length f = CHUNK_SIZE"
      using len True by simp
    from a b c lo show ?thesis by blast
  qed
qed

lemma sentAudio_emit:
  "sentAudio (emit e s) = sentAudio s @ (case e of SendAudio sid b \<Rightarrow> [b] | _ \<Rightarrow> [])"
  by (cases e) (simp_all add: sentAudio_def emit_def)

lemma sentAudio_upd [simp]:
  "sentAudio (s\<lparr>wsNull := a\<rparr>) = sentAudio s"
  "sentAudio (s\<lparr>readyState := b\<rparr>) = sentAudio s"
  "sentAudio (s\<lparr>aborted := c\<rparr>) = sentAudio s"
  "sentAudio (s\<lparr>flushed := d\<rparr>) = sentAudio s"
  "sentAudio (s\<lparr>wsReady := e\<rparr>) = sentAudio s"
  "sentAudio (s\<lparr>pendingChunks := f\<rparr>) = sentAudio s"
  "sentAudio (s\<lparr>completion := g\<rparr>) = sentAudio s"
  "sentAudio (s\<lparr>audioLeftover := h\<rparr>) = sentAudio s"
  "sentAudio (s\<lparr>eosOnOpen := i\<rparr>) = sentAudio s"
  by (simp_all add: sentAudio_def)

lemma emit_fields [simp]:
  "streamSid (emit e s) = streamSid s"
  "wsNull (emit e s) = wsNull s"
  "readyState (emit e s) = readyState s"
  "aborted (emit e s) = aborted s"
  "flushed (emit e s) = flushed s"
  "wsReady (emit e s) = wsReady s"
  "pendingChunks (emit e s) = pendingChunks s"
  "completion (emit e s) = completion s"
  "audioLeftover (emit e s) = audioLeftover s"
  "eosOnOpen (emit e s) = eosOnOpen s"
  "effects (emit e s) = effects s @ [e]"
  by (simp_all add: emit_def)

lemma completionResolve_audio [simp]:
  "aborted (completionResolve s) = aborted s"
  "audioLeftover (completionResolve s) = audioLeftover s"
  "sentAudio (completionResolve s) = sentAudio s"
  by (simp_all add: completionResolve_def sentAudio_emit)

lemma sendText_audio [simp]:
  "aborted (sendText t s) = aborted s"
  "audioLeftover (sendText t s) = audioLeftover s"
  "sentAudio (sendText t s) = sentAudio s"
  by (simp_all add: sendText_def sentAudio_emit)

lemma sendEos_audio [simp]:
  "aborted (sendEos s) = aborted s"
  "audioLeftover (sendEos s) = audioLeftover s"
  "sentAudio (sendEos s) = sentAudio s"
  by (simp_all add: sendEos_def sentAudio_emit)

lemma sendTexts_audio [simp]:
  "aborted (sendTexts ts s) = aborted s"
  "audioLeftover (sendTexts ts s) = audioLeftover s"
  "sentAudio (sendTexts ts s) = sentAudio s"
  by (induction ts arbitrary: s; simp)+

lemma runEosListeners_audio [simp]:
  "aborted (runEosListeners n s) = aborted s"
  "audioLeftover (runEosListeners n s) = audioLeftover s"
  "sentAudio (runEosListeners n s) = sentAudio s"
  by (induction n arbitrary: s; simp)+

lemma onOpen_audio [simp]:
  "aborted (onOpen s) = aborted s"
  "audioLeftover (onOpen s) = audioLeftover s"
  "sentAudio (onOpen s) = sentAudio s"
  by (simp_all add: onOpen_def wsClose_def Let_def sentAudio_emit)

lemma feedTokens_audio [simp]:
  "aborted (feedTokens t s) = aborted s"
  "audioLeftover (feedTokens t s) = audioLeftover s"
  "sentAudio (feedTokens t s) = sentAudio s"
  by (simp_all add: feedTokens_def)

lemma flush_audio [simp]:
  "aborted (flush s) = aborted s"
  "audioLeftover (flush s) = audioLeftover s"
  "sentAudio (flush s) = sentAudio s"
  by (simp_all add: flush_def Let_def)



lemma run_Nil [simp]: "run [] s = s"
  by (simp add: run_def)

lemma run_Cons [simp]: "run (e # evs) s = run evs (step e s)"
  by (simp add: run_def)

lemma run_append: "run (xs @ ys) s = run ys (run xs s)"
  by (simp add: run_def)


lemma sendRemainingAudio_char:
  "sentAudio (sendRemainingAudio s) =
     sentAudio s @ (if audioLeftover s = [] then [] else [audioLeftover s])"
  "audioLeftover (sendRemainingAudio s) = []"
  "aborted (sendRemainingAudio s) = aborted s"
  by (simp_all add: sendRemainingAudio_def sentAudio_emit)













subsection \<open>Abort, buffered text\<close>

lemma step_aborted:
  "aborted s \<Longrightarrow> aborted (step e s)"
  by (cases e) (simp_all add: onMessage_def onError_def onClose_def sendRemainingAudio_char Let_def abort_def)

lemma run_aborted:
  "aborted s \<Longrightarrow> aborted (run evs s)"
  by (induction evs arbitrary: s) (simp_all add: step_aborted)

lemma abort_aborted: "aborted (abort s)"
  by (simp add: abort_def Let_def wsClose_def)

text \<open>
  Claim C4. \<open>abort\<close> is idempotent: a second call changes nothing. On a relay that is
  not aborted, one call marks it aborted, clears the pending text, drops \<open>this.ws\<close>,
  resolves the completion promise, and its calls to the collaborators are: \<open>close\<close> on
  the socket if it is open, then \<open>clearAudio\<close> for the stream, then the settling of
  the promise if it was pending. In every state that follows an abort, \<open>feedTokens\<close>
  and \<open>flush\<close> return without sending or buffering anything.
\<close>

theorem abort_discards_and_silences:
  "abort (abort s) = abort s
   \<and> (\<not> aborted s \<longrightarrow>
        aborted (abort s) \<and> pendingChunks (abort s) = [] \<and> wsNull (abort s)
        \<and> completion (abort s)
        \<and> effects (abort s) =
            effects s
            @ (if \<not> wsNull s \<and> readyState s = OPEN then [WsClose] else [])
            @ [ClearAudio (streamSid s)]
            @ (if completion s then [] else [CompletionResolved]))
   \<and> (\<forall>evs tokens.
        feedTokens tokens (run evs (abort s)) = run evs (abort s)
        \<and> flush (run evs (abort s)) = run evs (abort s))"
proof (intro conjI allI impI)
  show "abort (abort s) = abort s"
    using abort_aborted [of s] by (simp add: abort_def [of "abort s"])
next
  fix evs tokens
  have "aborted (run evs (abort s))"
    by (rule run_aborted) (rule abort_aborted)
  then show "feedTokens tokens (run evs (abort s)) = run evs (abort s)"
    and "flush (run evs (abort s)) = run evs (abort s)"
    by (simp_all add: feedTokens_def flush_def)
qed (simp_all add: abort_def Let_def wsClose_def completionResolve_def emit_def)

theorem abort_discards_and_silences_witness:
  "\<not> aborted (run [FeedTokens [0x68], Open, FeedTokens [0x69]] (init [1]))
   \<and> effects (abort (run [FeedTokens [0x68], Open, FeedTokens [0x69]] (init [1]))) =
       [WsConnect, WsSend Bos, WsSend (TextMsg [0x68]), WsSend (TextMsg [0x69]),
        WsClose, ClearAudio [1], CompletionResolved]
   \<and> pendingChunks (run [FeedTokens [0x68]] (init [1])) = [[0x68]]
   \<and> pendingChunks (abort (run [FeedTokens [0x68]] (init [1]))) = []
   \<and> feedTokens [0x6A] (run [Open, Flush] (abort (run [FeedTokens [0x68]] (init [1]))))
       = run [Open, Flush] (abort (run [FeedTokens [0x68]] (init [1])))"
  using abort_discards_and_silences [of "run [FeedTokens [0x68], Open, FeedTokens [0x69]] (init [1])"]
    abort_discards_and_silences [of "run [FeedTokens [0x68]] (init [1])"]
  by (simp add: init_def feedTokens_def flush_def onOpen_def sendText_def sendEos_def abort_def
      wsClose_def completionResolve_def emit_def Let_def)

lemma runEosListeners_wsNull:
  "wsNull s \<Longrightarrow> runEosListeners n s = s"
  by (induction n) (simp_all add: sendEos_def)

lemma step_after_abort:
  assumes "aborted s" and "completion s" and "wsNull s" and "e \<noteq> Close"
  shows "step e s = s \<or> step e s = s\<lparr>readyState := OPEN\<rparr>"
  using assms
  by (cases e)
     (simp_all add: onOpen_def runEosListeners_wsNull onMessage_def onError_def
       completionResolve_def feedTokens_def flush_def abort_def)

lemma run_after_abort:
  assumes "aborted s" and "completion s" and "wsNull s" and "Close \<notin> set evs"
  shows "aborted (run evs s) \<and> completion (run evs s) \<and> wsNull (run evs s)
     \<and> effects (run evs s) = effects s \<and> audioLeftover (run evs s) = audioLeftover s
     \<and> streamSid (run evs s) = streamSid s"
  using assms
proof (induction evs arbitrary: s)
  case Nil
  then show ?case by simp
next
  case (Cons e evs)
  from Cons.prems have e: "e \<noteq> Close" and evs: "Close \<notin> set evs" by auto
  from step_after_abort [OF Cons.prems(1-3) e]
  have same: "aborted (step e s)" "completion (step e s)" "wsNull (step e s)"
    "effects (step e s) = effects s" "audioLeftover (step e s) = audioLeftover s"
    "streamSid (step e s) = streamSid s"
    using Cons.prems(1-3) by auto
  from Cons.IH [OF same(1-3) evs] same(4-6) show ?case by simp
qed

lemma abort_state:
  "\<not> aborted s \<Longrightarrow> aborted (abort s) \<and> completion (abort s) \<and> wsNull (abort s)
     \<and> audioLeftover (abort s) = audioLeftover s \<and> streamSid (abort s) = streamSid s"
  by (simp add: abort_def Let_def wsClose_def completionResolve_def emit_def)

text \<open>
  Claim C9. The \<open>close\<close> listener does not test the aborted flag. When \<open>abort\<close> is
  called on a relay whose leftover audio buffer is not empty, nothing between the abort
  and the socket's \<open>close\<close> event calls a collaborator, and the \<open>close\<close> listener
  then passes the leftover partial frame to \<open>sendAudio\<close>, after the \<open>clearAudio\<close> of
  the abort.
\<close>

theorem leftover_sent_after_abort:
  assumes "\<not> aborted s" and "audioLeftover s \<noteq> []" and "Close \<notin> set evs"
  shows "aborted (run evs (abort s))
     \<and> effects (run evs (abort s)) = effects (abort s)
     \<and> effects (run (evs @ [Close]) (abort s)) =
         effects (abort s) @ [SendAudio (streamSid s) (audioLeftover s)]"
proof -
  let ?a = "abort s"
  let ?r = "run evs ?a"
  from abort_state [OF assms(1)]
  have a: "aborted ?a" "completion ?a" "wsNull ?a" "audioLeftover ?a = audioLeftover s"
    "streamSid ?a = streamSid s" by simp_all
  from run_after_abort [OF a(1-3) assms(3)]
  have r: "aborted ?r" "completion ?r" "effects ?r = effects ?a"
    "audioLeftover ?r = audioLeftover s" "streamSid ?r = streamSid s"
    using a(4,5) by simp_all
  have "run (evs @ [Close]) ?a = step Close ?r"
    by (simp add: run_append)
  moreover have "effects (step Close ?r) = effects ?r @ [SendAudio (streamSid s) (audioLeftover s)]"
    using r(2,4,5) assms(2)
    by (simp add: onClose_def sendRemainingAudio_def completionResolve_def emit_def)
  ultimately show ?thesis using r(1,3) by simp
qed

theorem leftover_sent_after_abort_witness:
  "\<not> aborted (run [Open, Message (Msg (Some (replicate 100 7)) False)] (init [1]))
   \<and> audioLeftover (run [Open, Message (Msg (Some (replicate 100 7)) False)] (init [1]))
       = replicate 100 7
   \<and> effects (run ([Message (Msg (Some (replicate 5 1)) False), Error] @ [Close])
        (abort (run [Open, Message (Msg (Some (replicate 100 7)) False)] (init [1])))) =
       [WsConnect, WsSend Bos, WsClose, ClearAudio [1], CompletionResolved,
        SendAudio [1] (replicate 100 7)]"
  using leftover_sent_after_abort
    [of "run [Open, Message (Msg (Some (replicate 100 7)) False)] (init [1])"
        "[Message (Msg (Some (replicate 5 1)) False), Error]"]
  by (simp add: init_def onOpen_def onMessage_def sendAudioChunks_def chunkLoop.simps
      CHUNK_SIZE_def abort_def wsClose_def completionResolve_def emit_def Let_def)

lemma sendTexts_open:
  "\<not> wsNull s \<Longrightarrow> readyState s = OPEN \<Longrightarrow>
   sendTexts ts s = s\<lparr>effects := effects s @ map (\<lambda>t. WsSend (TextMsg t)) ts\<rparr>"
  by (induction ts arbitrary: s) (simp_all add: sendText_def emit_def)

lemma run_pre_ready:
  assumes "\<not> aborted s" and "\<not> wsReady s" and "\<not> wsNull s"
    and "\<forall>c\<in>set calls. preReadyCall c"
  shows "run calls s =
     s\<lparr>pendingChunks := pendingChunks s @ concat (map textOf calls),
       flushed := (flushed s \<or> Flush \<in> set calls),
       eosOnOpen := (if \<not> flushed s \<and> Flush \<in> set calls then Suc (eosOnOpen s)
                     else eosOnOpen s)\<rparr>"
  using assms
proof (induction calls arbitrary: s)
  case Nil
  then show ?case by simp
next
  case (Cons c calls)
  from Cons.prems(4) have c: "preReadyCall c" and rest: "\<forall>c\<in>set calls. preReadyCall c"
    by simp_all
  show ?case
  proof (cases c)
    case (FeedTokens t)
    let ?s1 = "s\<lparr>pendingChunks := pendingChunks s @ [t]\<rparr>"
    have st: "step c s = ?s1"
      using FeedTokens Cons.prems(1,2) by (simp add: feedTokens_def)
    have "\<not> aborted ?s1" "\<not> wsReady ?s1" "\<not> wsNull ?s1"
      using Cons.prems(1-3) by simp_all
    from Cons.IH [OF this rest] show ?thesis
      using FeedTokens st by simp
  next
    case Flush
    show ?thesis
    proof (cases "flushed s")
      case True
      then have st: "step c s = s"
        using Flush by (simp add: flush_def)
      from Cons.IH [OF Cons.prems(1-3) rest] show ?thesis
        using True st Flush by simp
    next
      case False
      let ?s1 = "s\<lparr>flushed := True, eosOnOpen := Suc (eosOnOpen s)\<rparr>"
      have st: "step c s = ?s1"
        using Flush False Cons.prems(1-3) by (simp add: flush_def Let_def)
      have "\<not> aborted ?s1" "\<not> wsReady ?s1" "\<not> wsNull ?s1"
        using Cons.prems(1-3) by simp_all
      from Cons.IH [OF this rest] show ?thesis
        using False Flush st by simp
    qed
  qed (use c in simp_all)
qed

lemma sendText_fields [simp]:
  "streamSid (sendText t s) = streamSid s"
  "wsNull (sendText t s) = wsNull s"
  "readyState (sendText t s) = readyState s"
  "flushed (sendText t s) = flushed s"
  "wsReady (sendText t s) = wsReady s"
  "pendingChunks (sendText t s) = pendingChunks s"
  "completion (sendText t s) = completion s"
  "eosOnOpen (sendText t s) = eosOnOpen s"
  by (simp_all add: sendText_def)

lemma sendTexts_fields [simp]:
  "streamSid (sendTexts ts s) = streamSid s"
  "wsNull (sendTexts ts s) = wsNull s"
  "readyState (sendTexts ts s) = readyState s"
  "flushed (sendTexts ts s) = flushed s"
  "wsReady (sendTexts ts s) = wsReady s"
  "pendingChunks (sendTexts ts s) = pendingChunks s"
  "completion (sendTexts ts s) = completion s"
  "eosOnOpen (sendTexts ts s) = eosOnOpen s"
  by (induction ts arbitrary: s; simp)+

lemma onOpen_eosOnOpen [simp]:
  "eosOnOpen (onOpen s) = eosOnOpen s"
  by (simp add: onOpen_def wsClose_def Let_def)

lemma wsSent_append_effects:
  "wsSent (s\<lparr>effects := effects s @ es\<rparr>) = wsSent s @ [m. WsSend m \<leftarrow> es]"
  by (simp add: wsSent_def)

text \<open>
  Claim C5. Every text fed by \<open>feedTokens\<close> before the transport signals ready is
  appended to the pending buffer, in call order, and nothing is sent. When the ready
  signal fires, the relay sends the begin-of-stream message, then every buffered text in
  that same order (then the end-of-stream message, if \<open>flush\<close> was called meanwhile),
  and the buffer is cleared: no fed text is dropped or reordered.
\<close>

theorem feed_before_ready_in_order:
  assumes "\<forall>c\<in>set calls. preReadyCall c"
  shows "pendingChunks (run calls (init sid)) = concat (map textOf calls)
     \<and> wsSent (run calls (init sid)) = []
     \<and> wsSent (run (calls @ [Open]) (init sid)) =
         Bos # map TextMsg (concat (map textOf calls)) @ (if Flush \<in> set calls then [Eos] else [])
     \<and> pendingChunks (run (calls @ [Open]) (init sid)) = []"
proof -
  let ?ts = "concat (map textOf calls)"
  let ?s = "run calls (init sid)"
  have "\<not> aborted (init sid)" "\<not> wsReady (init sid)" "\<not> wsNull (init sid)"
    by (simp_all add: init_def)
  from run_pre_ready [OF this assms]
  have s: "?s = (init sid)\<lparr>pendingChunks := ?ts, flushed := (Flush \<in> set calls),
      eosOnOpen := (if Flush \<in> set calls then Suc 0 else 0)\<rparr>"
    by (simp add: init_def)
  have p: "pendingChunks ?s = ?ts" and w: "wsSent ?s = []"
    unfolding s by (simp_all add: init_def wsSent_def)
  let ?o = "(init sid)\<lparr>pendingChunks := ?ts, flushed := (Flush \<in> set calls),
      eosOnOpen := (if Flush \<in> set calls then Suc 0 else 0), readyState := OPEN\<rparr>"
  let ?b = "(emit (WsSend Bos) ?o)\<lparr>wsReady := True\<rparr>"
  have b: "\<not> wsNull ?b" "readyState ?b = OPEN"
    by (simp_all add: init_def)
  have oo: "onOpen ?o =
      (?b\<lparr>effects := effects ?b @ map (\<lambda>t. WsSend (TextMsg t)) ?ts\<rparr>)\<lparr>pendingChunks := []\<rparr>"
    by (simp add: onOpen_def Let_def sendTexts_open init_def)
  have st: "run (calls @ [Open]) (init sid) =
      runEosListeners (if Flush \<in> set calls then Suc 0 else 0) (onOpen ?o)"
    unfolding run_append s by (simp add: init_def Let_def)
  have "wsSent (run (calls @ [Open]) (init sid)) =
      Bos # map TextMsg ?ts @ (if Flush \<in> set calls then [Eos] else [])"
    unfolding st oo
    by (simp add: sendEos_def init_def emit_def wsSent_def comp_def)
  moreover have "pendingChunks (run (calls @ [Open]) (init sid)) = []"
    unfolding st oo by (simp add: sendEos_def init_def emit_def)
  ultimately show ?thesis using p w by simp
qed

theorem feed_before_ready_in_order_witness:
  "pendingChunks (run [FeedTokens [0x48, 0x69], Flush, FeedTokens [0x21]] (init [1])) =
     [[0x48, 0x69], [0x21]]
   \<and> wsSent (run ([FeedTokens [0x48, 0x69], Flush, FeedTokens [0x21]] @ [Open]) (init [1])) =
       [Bos, TextMsg [0x48, 0x69], TextMsg [0x21], Eos]
   \<and> pendingChunks (run ([FeedTokens [0x48, 0x69], Flush, FeedTokens [0x21]] @ [Open]) (init [1]))
       = []"
  using feed_before_ready_in_order [of "[FeedTokens [0x48, 0x69], Flush, FeedTokens [0x21]]" "[1]"]
  by simp

subsection \<open>Reachable states, end of stream, completion\<close>

lemma sendEos_fields [simp]:
  "streamSid (sendEos s) = streamSid s"
  "wsNull (sendEos s) = wsNull s"
  "readyState (sendEos s) = readyState s"
  "flushed (sendEos s) = flushed s"
  "wsReady (sendEos s) = wsReady s"
  "pendingChunks (sendEos s) = pendingChunks s"
  "completion (sendEos s) = completion s"
  "eosOnOpen (sendEos s) = eosOnOpen s"
  by (simp_all add: sendEos_def)

lemma runEosListeners_fields [simp]:
  "streamSid (runEosListeners n s) = streamSid s"
  "wsNull (runEosListeners n s) = wsNull s"
  "readyState (runEosListeners n s) = readyState s"
  "flushed (runEosListeners n s) = flushed s"
  "wsReady (runEosListeners n s) = wsReady s"
  "pendingChunks (runEosListeners n s) = pendingChunks s"
  "completion (runEosListeners n s) = completion s"
  "eosOnOpen (runEosListeners n s) = eosOnOpen s"
  by (induction n arbitrary: s; simp)+

lemma runEosListeners_effects:
  "effects (runEosListeners n s) =
     effects s @ (if \<not> wsNull s \<and> readyState s = OPEN then replicate n (WsSend Eos) else [])"
proof (induction n arbitrary: s)
  case 0
  show ?case by simp
next
  case (Suc n)
  show ?case
    by (simp add: Suc.IH, simp add: sendEos_def replicate_append_same)
qed

lemma sendTexts_effects:
  "effects (sendTexts ts s) =
     effects s @ (if \<not> wsNull s \<and> readyState s = OPEN then map (\<lambda>t. WsSend (TextMsg t)) ts else [])"
proof (induction ts arbitrary: s)
  case Nil
  show ?case by simp
next
  case (Cons t ts)
  show ?case
    by (simp add: Cons.IH, simp add: sendText_def)
qed

lemma count_list_TextMsg [simp]:
  "count_list (map (\<lambda>t. WsSend (TextMsg t)) ts) (WsSend Eos) = 0"
  "count_list (map (\<lambda>t. WsSend (TextMsg t)) ts) CompletionResolved = 0"
  "count_list (map (\<lambda>t. WsSend (TextMsg t)) ts) WsConnect = 0"
  by (induction ts; simp)+

lemma count_list_replicate_Eos [simp]:
  "count_list (replicate n (WsSend Eos)) (WsSend Eos) = n"
  "count_list (replicate n (WsSend Eos)) CompletionResolved = 0"
  "count_list (replicate n (WsSend Eos)) WsConnect = 0"
  by (induction n; simp)+

lemma count_list_SendAudio [simp]:
  "count_list (map (SendAudio sid) fs) (WsSend Eos) = 0"
  "count_list (map (SendAudio sid) fs) CompletionResolved = 0"
  "count_list (map (SendAudio sid) fs) WsConnect = 0"
  by (induction fs; simp)+

lemma sendAudioChunks_frame:
  "\<exists>fs lo. sendAudioChunks audio s =
     s\<lparr>audioLeftover := lo, effects := effects s @ map (SendAudio (streamSid s)) fs\<rparr>"
  using chunkLoop_char [of "audioLeftover s @ audio" s]
  unfolding sendAudioChunks_def by blast

lemma sendAudioChunks_relayInv:
  "relayInv (sendAudioChunks audio s) = relayInv s"
  "completion (sendAudioChunks audio s) = completion s"
  "streamSid (sendAudioChunks audio s) = streamSid s"
proof -
  obtain fs lo where eq: "sendAudioChunks audio s =
     s\<lparr>audioLeftover := lo, effects := effects s @ map (SendAudio (streamSid s)) fs\<rparr>"
    using sendAudioChunks_frame by blast
  show "relayInv (sendAudioChunks audio s) = relayInv s"
    unfolding eq by (simp add: relayInv_def)
  show "completion (sendAudioChunks audio s) = completion s"
    unfolding eq by simp
  show "streamSid (sendAudioChunks audio s) = streamSid s"
    unfolding eq by simp
qed

lemma sendRemainingAudio_relayInv:
  "relayInv (sendRemainingAudio s) = relayInv s"
  "completion (sendRemainingAudio s) = completion s"
  by (simp_all add: sendRemainingAudio_def relayInv_def)

lemma completionResolve_relayInv:
  "relayInv s \<Longrightarrow> relayInv (completionResolve s)"
  "completion (completionResolve s)"
  by (auto simp: completionResolve_def relayInv_def split: if_splits)

lemma emit_SendMark_relayInv:
  "relayInv (emit (SendMark sid) s) = relayInv s"
  by (simp add: relayInv_def)

lemma init_relayInv: "relayInv (init sid)"
  by (simp add: relayInv_def init_def)

lemma onMessage_relayInv:
  assumes "relayInv s"
  shows "relayInv (onMessage d s)"
proof (cases d)
  case Malformed
  with assms show ?thesis by (simp add: onMessage_def)
next
  case (Msg audio isFinal)
  with assms show ?thesis
    by (cases audio; cases isFinal)
       (simp_all add: onMessage_def sendAudioChunks_relayInv sendRemainingAudio_relayInv
         completionResolve_relayInv emit_SendMark_relayInv)
qed

lemma onOpen_relayInv:
  assumes "relayInv s" and "readyState s = CONNECTING"
  shows "relayInv (runEosListeners (eosOnOpen s) (onOpen (s\<lparr>readyState := OPEN\<rparr>)))"
  using assms
  by (simp add: relayInv_def runEosListeners_effects onOpen_def Let_def sendTexts_effects)

lemma flush_relayInv:
  "relayInv s \<Longrightarrow> relayInv (flush s)"
  by (auto simp: relayInv_def flush_def Let_def sendEos_def)

lemma abort_relayInv:
  "relayInv s \<Longrightarrow> relayInv (abort s)"
  by (auto simp: relayInv_def abort_def Let_def wsClose_def completionResolve_def)

lemma step_relayInv:
  assumes "relayInv s"
  shows "relayInv (step e s)"
proof (cases e)
  case Open
  with assms onOpen_relayInv [OF assms] show ?thesis by (simp add: Let_def)
next
  case (Message d)
  with assms show ?thesis by (simp add: onMessage_relayInv)
next
  case Error
  with assms show ?thesis by (simp add: onError_def completionResolve_relayInv)
next
  case Close
  have "relayInv (s\<lparr>readyState := CLOSED\<rparr>)"
    using assms by (simp add: relayInv_def)
  with Close show ?thesis
    by (simp add: onClose_def completionResolve_relayInv sendRemainingAudio_relayInv)
next
  case (FeedTokens t)
  with assms show ?thesis by (auto simp: feedTokens_def relayInv_def sendText_def)
next
  case Flush
  with assms show ?thesis by (simp add: flush_relayInv)
next
  case Abort
  with assms show ?thesis by (simp add: abort_relayInv)
qed

lemma run_relayInv:
  "relayInv s \<Longrightarrow> relayInv (run evs s)"
  by (induction evs arbitrary: s) (simp_all add: step_relayInv)

lemma wsSent_effects_append:
  "effects t = effects s @ es \<Longrightarrow> wsSent t = wsSent s @ [m. WsSend m \<leftarrow> es]"
  by (simp add: wsSent_def)

lemma wsSent_TextMsgs:
  "[m. WsSend m \<leftarrow> map (\<lambda>t. WsSend (TextMsg t)) ts] = map TextMsg ts"
  by (induction ts) simp_all

lemma count_wsSent:
  "count_list (wsSent s) m = count_list (effects s) (WsSend m)"
proof -
  have "count_list [m. WsSend m \<leftarrow> es] m = count_list es (WsSend m)" for es
  proof (induction es)
    case Nil
    show ?case by simp
  next
    case (Cons e es)
    then show ?case by (cases e) simp_all
  qed
  then show ?thesis by (simp add: wsSent_def)
qed

lemma deferred_eos_on_open:
  assumes inv: "relayInv r" and na: "\<not> aborted r" and nf: "\<not> flushed r"
    and co: "readyState r = CONNECTING" and mid: "\<forall>c\<in>set mid. preReadyCall c"
  shows "effects (run (Flush # mid @ [Open]) r) =
     effects r @ WsSend Bos
       # map (\<lambda>t. WsSend (TextMsg t)) (pendingChunks r @ concat (map textOf mid))
       @ [WsSend Eos]"
proof -
  from inv na co nf have r: "\<not> wsNull r" "\<not> wsReady r" "eosOnOpen r = 0"
    by (auto simp: relayInv_def)
  let ?f = "r\<lparr>flushed := True, eosOnOpen := Suc 0\<rparr>"
  have f: "flush r = ?f"
    using na nf r by (simp add: flush_def Let_def)
  have "\<not> aborted ?f" "\<not> wsReady ?f" "\<not> wsNull ?f"
    using na r by simp_all
  from run_pre_ready [OF this mid]
  have g: "run mid ?f = ?f\<lparr>pendingChunks := pendingChunks r @ concat (map textOf mid)\<rparr>"
    by simp
  let ?g = "?f\<lparr>pendingChunks := pendingChunks r @ concat (map textOf mid)\<rparr>"
  have "run (Flush # mid @ [Open]) r = step Open ?g"
    by (simp add: run_append f g)
  moreover have "effects (step Open ?g) =
     effects r @ WsSend Bos
       # map (\<lambda>t. WsSend (TextMsg t)) (pendingChunks r @ concat (map textOf mid))
       @ [WsSend Eos]"
    using na r co
    by (simp add: Let_def onOpen_def sendEos_def sendTexts_effects)
  ultimately show ?thesis by simp
qed

text \<open>
  Claim C6, amended. \<open>flush\<close> on a relay that is neither aborted nor flushed sets the
  flushed flag at once. If the transport has signalled ready, the end-of-stream message
  is sent at once when the socket is open, and not at all when \<open>this.ws\<close> is null or
  the socket is no longer open. If the transport is not yet ready, nothing is sent
  now; on a relay still connecting, the message is sent when the ready signal fires,
  after the begin-of-stream message and the buffered texts. A call of \<open>flush\<close> on an
  aborted or already flushed relay is a no-op, and at most one end-of-stream message is
  sent per relay instance.
\<close>

theorem flush_end_of_stream:
  "(\<not> aborted s \<and> \<not> flushed s \<longrightarrow> flushed (flush s))
   \<and> (\<not> aborted s \<and> \<not> flushed s \<and> wsReady s \<longrightarrow>
        effects (flush s) =
          effects s @ (if \<not> wsNull s \<and> readyState s = OPEN then [WsSend Eos] else []))
   \<and> (\<not> aborted s \<and> \<not> flushed s \<and> \<not> wsReady s \<longrightarrow> effects (flush s) = effects s)
   \<and> (\<not> aborted (run evs (init sid)) \<and> \<not> flushed (run evs (init sid))
        \<and> readyState (run evs (init sid)) = CONNECTING
        \<and> (\<forall>c\<in>set mid. preReadyCall c) \<longrightarrow>
        wsSent (run (evs @ Flush # mid @ [Open]) (init sid)) =
          wsSent (run evs (init sid))
          @ Bos # map TextMsg (pendingChunks (run evs (init sid)) @ concat (map textOf mid))
          @ [Eos])
   \<and> (aborted s \<or> flushed s \<longrightarrow> flush s = s)
   \<and> count_list (wsSent (run evs (init sid))) Eos \<le> 1"
proof (intro conjI impI)
  assume a: "\<not> aborted (run evs (init sid)) \<and> \<not> flushed (run evs (init sid))
        \<and> readyState (run evs (init sid)) = CONNECTING
        \<and> (\<forall>c\<in>set mid. preReadyCall c)"
  let ?r = "run evs (init sid)"
  have inv: "relayInv ?r"
    by (rule run_relayInv) (rule init_relayInv)
  define t where "t = run (Flush # mid @ [Open]) ?r"
  from a deferred_eos_on_open [OF inv, of mid]
  have eff: "effects t =
     effects ?r @ WsSend Bos
       # map (\<lambda>t. WsSend (TextMsg t)) (pendingChunks ?r @ concat (map textOf mid))
       @ [WsSend Eos]"
    unfolding t_def by blast
  have "wsSent t =
      wsSent ?r @ Bos # map TextMsg (pendingChunks ?r @ concat (map textOf mid)) @ [Eos]"
    using wsSent_effects_append [OF eff] by (simp add: comp_def)
  moreover have "run (evs @ Flush # mid @ [Open]) (init sid) = t"
    unfolding t_def by (simp only: run_append)
  ultimately show "wsSent (run (evs @ Flush # mid @ [Open]) (init sid)) =
          wsSent ?r @ Bos # map TextMsg (pendingChunks ?r @ concat (map textOf mid)) @ [Eos]"
    by simp
next
  have "relayInv (run evs (init sid))"
    by (rule run_relayInv) (rule init_relayInv)
  then show "count_list (wsSent (run evs (init sid))) Eos \<le> 1"
    by (simp add: count_wsSent relayInv_def split: if_splits)
qed (auto simp: flush_def Let_def sendEos_def)

theorem flush_end_of_stream_witness:
  "wsSent (flush (run [Open] (init []))) = [Bos, Eos]
   \<and> flushed (flush (run [FeedTokens [0x68]] (init [])))
   \<and> wsSent (flush (run [FeedTokens [0x68]] (init []))) = []
   \<and> wsSent (run ([FeedTokens [0x68]] @ Flush # [FeedTokens [0x69], Flush] @ [Open]) (init []))
       = [Bos, TextMsg [0x68], TextMsg [0x69], Eos]
   \<and> flush (flush (run [Open] (init []))) = flush (run [Open] (init []))"
  using flush_end_of_stream
      [where s = "run [Open] (init [])" and evs = "[FeedTokens [0x68]]" and sid = "[]"
         and mid = "[FeedTokens [0x69], Flush]"]
    flush_end_of_stream
      [where s = "flush (run [Open] (init []))" and evs = "[]" and sid = "[]" and mid = "[]"]
  by (simp add: init_def feedTokens_def flush_def onOpen_def sendText_def sendEos_def
      emit_def wsSent_def Let_def)

text \<open>
  Claim C6 as stated fails: after the socket has opened and closed, \<open>flush\<close> on the
  relay, which is not aborted and has signalled ready, sets the flushed flag but neither
  sends the end-of-stream message nor registers a listener that would send it.
\<close>

theorem flush_after_close_counterexample:
  "\<not> aborted (run [Open, Close] (init []))
   \<and> wsReady (run [Open, Close] (init []))
   \<and> flushed (flush (run [Open, Close] (init [])))
   \<and> wsSent (flush (run [Open, Close] (init []))) = [Bos]
   \<and> eosOnOpen (flush (run [Open, Close] (init []))) = 0"
  by (simp add: init_def flush_def onOpen_def onClose_def sendRemainingAudio_def sendEos_def
      completionResolve_def emit_def wsSent_def Let_def)

lemma step_completion:
  assumes "completion s"
  shows "completion (step e s)"
proof (cases e)
  case (Message d)
  show ?thesis
  proof (cases d)
    case Malformed
    with Message assms show ?thesis by (simp add: onMessage_def)
  next
    case (Msg audio isFinal)
    with Message assms show ?thesis
      by (cases audio; cases isFinal)
         (simp_all add: onMessage_def sendAudioChunks_relayInv completionResolve_relayInv)
  qed
qed (use assms in \<open>simp_all add: onError_def onClose_def completionResolve_relayInv
      Let_def onOpen_def wsClose_def feedTokens_def flush_def abort_def\<close>)

lemma run_completion:
  "completion s \<Longrightarrow> completion (run evs s)"
  by (induction evs arbitrary: s) (simp_all add: step_completion)

lemma step_terminating_completion:
  assumes "relayInv s" and "terminating e"
  shows "completion (step e s)"
proof (cases e)
  case (Message d)
  with assms(2) obtain audio where d: "d = Msg audio True"
    by (cases d) auto
  show ?thesis
  proof (cases "aborted s")
    case True
    with assms(1) have "completion s" by (simp add: relayInv_def)
    with True Message show ?thesis by (simp add: onMessage_def)
  next
    case False
    with Message d show ?thesis
      by (simp add: onMessage_def completionResolve_relayInv Let_def)
  qed
qed (use assms in \<open>simp_all add: onError_def onClose_def completionResolve_relayInv\<close>)

text \<open>
  Claim C7. On every run of a relay the completion promise settles at most once and the
  socket is created once: nothing reconnects. After a final-signal message, an error of
  the transport or the close of the socket, at any point of a run, the promise returned
  by \<open>waitForCompletion\<close> is resolved, and it has settled exactly once. The \<open>error\<close>
  listener does nothing but resolve the promise.
\<close>

theorem completion_resolves_once:
  "count_list (effects (run evs (init sid))) CompletionResolved \<le> 1
   \<and> count_list (effects (run evs (init sid))) WsConnect = 1
   \<and> (terminating e \<longrightarrow>
        waitForCompletion (run (pre @ e # post) (init sid))
        \<and> count_list (effects (run (pre @ e # post) (init sid))) CompletionResolved = 1)
   \<and> effects (step Error s) = effects s @ (if completion s then [] else [CompletionResolved])"
proof (intro conjI impI)
  have inv: "relayInv (run evs (init sid))" for evs
    by (rule run_relayInv) (rule init_relayInv)
  from inv [of evs]
  show "count_list (effects (run evs (init sid))) CompletionResolved \<le> 1"
    and "count_list (effects (run evs (init sid))) WsConnect = 1"
    by (simp_all add: relayInv_def split: if_splits)
  assume t: "terminating e"
  have "completion (step e (run pre (init sid)))"
    using inv [of pre] t by (rule step_terminating_completion)
  then have c: "completion (run (pre @ e # post) (init sid))"
    by (simp add: run_append run_completion)
  then show "waitForCompletion (run (pre @ e # post) (init sid))"
    by (simp add: waitForCompletion_def)
  from inv [of "pre @ e # post"] c
  show "count_list (effects (run (pre @ e # post) (init sid))) CompletionResolved = 1"
    by (simp add: relayInv_def)
next
  show "effects (step Error s) = effects s @ (if completion s then [] else [CompletionResolved])"
    by (simp add: onError_def completionResolve_def)
qed

theorem completion_resolves_once_witness:
  "terminating Error
   \<and> effects (run ([Open] @ Error # [Close]) (init [])) =
        [WsConnect, WsSend Bos, CompletionResolved]
   \<and> waitForCompletion (run ([Open] @ Error # [Close]) (init []))
   \<and> effects (run ([Open] @ Message (Msg None True) # [Close]) (init [])) =
        [WsConnect, WsSend Bos, SendMark [], CompletionResolved]
   \<and> effects (run ([Open, Abort] @ Close # []) (init [])) =
        [WsConnect, WsSend Bos, WsClose, ClearAudio [], CompletionResolved]"
  using completion_resolves_once
      [where evs = "[]" and sid = "[]" and e = Error and pre = "[Open]" and post = "[Close]"
         and s = "init []"]
    completion_resolves_once
      [where evs = "[]" and sid = "[]" and e = "Message (Msg None True)" and pre = "[Open]"
         and post = "[Close]" and s = "init []"]
    completion_resolves_once
      [where evs = "[]" and sid = "[]" and e = Close and pre = "[Open, Abort]" and post = "[]"
         and s = "init []"]
  by (simp add: init_def onOpen_def onError_def onClose_def onMessage_def abort_def wsClose_def
      sendRemainingAudio_def completionResolve_def emit_def waitForCompletion_def Let_def)

text \<open>
  Claim C10, amended. \<open>feedTokens\<close> never reads the flushed flag: it does the same on
  a flushed relay as on an unflushed one. At any point of a run, on a relay that is not
  aborted and on which \<open>flush\<close> has been called, the text is buffered if the transport
  has not signalled ready; otherwise it is sent to the transport if the socket is open,
  and dropped (the call is a no-op) if the socket is not open.
\<close>

theorem feedTokens_ignores_flushed:
  "feedTokens tokens (s\<lparr>flushed := b\<rparr>) = (feedTokens tokens s)\<lparr>flushed := b\<rparr>
   \<and> (\<not> aborted (run evs (init sid)) \<and> flushed (run evs (init sid)) \<longrightarrow>
        feedTokens tokens (run evs (init sid)) =
          (if \<not> wsReady (run evs (init sid))
           then (run evs (init sid))
                  \<lparr>pendingChunks := pendingChunks (run evs (init sid)) @ [tokens]\<rparr>
           else if readyState (run evs (init sid)) = OPEN
           then (run evs (init sid))
                  \<lparr>effects := effects (run evs (init sid)) @ [WsSend (TextMsg tokens)]\<rparr>
           else run evs (init sid)))"
proof
  show "feedTokens tokens (s\<lparr>flushed := b\<rparr>) = (feedTokens tokens s)\<lparr>flushed := b\<rparr>"
    by (simp add: feedTokens_def sendText_def emit_def)
next
  let ?r = "run evs (init sid)"
  have "relayInv ?r"
    by (rule run_relayInv) (rule init_relayInv)
  then have "\<not> aborted ?r \<longrightarrow> \<not> wsNull ?r"
    by (simp add: relayInv_def)
  then show "\<not> aborted ?r \<and> flushed ?r \<longrightarrow>
        feedTokens tokens ?r =
          (if \<not> wsReady ?r then ?r\<lparr>pendingChunks := pendingChunks ?r @ [tokens]\<rparr>
           else if readyState ?r = OPEN
           then ?r\<lparr>effects := effects ?r @ [WsSend (TextMsg tokens)]\<rparr>
           else ?r)"
    by (simp add: feedTokens_def sendText_def emit_def)
qed

theorem feedTokens_ignores_flushed_witness:
  "\<not> aborted (run [Open, Flush] (init [])) \<and> flushed (run [Open, Flush] (init []))
   \<and> wsSent (feedTokens [0x68] (run [Open, Flush] (init []))) = [Bos, Eos, TextMsg [0x68]]
   \<and> \<not> aborted (run [Flush] (init [])) \<and> flushed (run [Flush] (init []))
   \<and> pendingChunks (feedTokens [0x68] (run [Flush] (init []))) = [[0x68]]"
  using feedTokens_ignores_flushed
      [where tokens = "[0x68]" and evs = "[Open, Flush]" and sid = "[]" and s = "init []"
         and b = True]
    feedTokens_ignores_flushed
      [where tokens = "[0x68]" and evs = "[Flush]" and sid = "[]" and s = "init []" and b = True]
  by (simp add: init_def flush_def onOpen_def sendEos_def emit_def wsSent_def Let_def)

text \<open>
  Claim C10 as stated fails: after open, \<open>flush\<close> and close, the relay is not aborted
  and is flushed, and \<open>feedTokens\<close> is a no-op on it.
\<close>

theorem feedTokens_after_close_counterexample:
  "\<not> aborted (run [Open, Flush, Close] (init []))
   \<and> flushed (run [Open, Flush, Close] (init []))
   \<and> feedTokens [0x68] (run [Open, Flush, Close] (init [])) = run [Open, Flush, Close] (init [])"
  by (simp add: init_def flush_def feedTokens_def sendText_def onOpen_def onClose_def
      sendRemainingAudio_def sendEos_def completionResolve_def emit_def Let_def)

section \<open>Properties of the call manager\<close>

subsection \<open>The answer-time greeting hook\<close>

lemma speakInitialMessage_neq: "speakInitialMessage pid mgr \<noteq> mgr"
proof
  assume "speakInitialMessage pid mgr = mgr"
  then have "speakInitialMessageCalls (speakInitialMessage pid mgr) = speakInitialMessageCalls mgr"
    by simp
  then show False by (simp add: speakInitialMessage_def)
qed

text \<open>
  Claim C8. The \<open>onCallAnswered\<close> hook starts speaking the initial message only when
  the metadata of the call carries a string \<open>initialMessage\<close> that is not empty after
  trimming, a provider is set, the call has a \<open>providerCallId\<close> and the name of the
  provider is not \<open>twilio\<close>. On the \<open>twilio\<close> provider, and for a call without such a
  message, the hook is a no-op. Conversely, under those conditions and with a
  \<open>providerCallId\<close> that is not the empty string, it calls \<open>speakInitialMessage\<close>
  with the \<open>providerCallId\<close>.
\<close>

theorem initial_message_on_answered:
  "(onCallAnswered mgr call \<noteq> mgr \<longrightarrow>
      (\<exists>msg p pid. initialMessageOf call = JString msg \<and> trim msg \<noteq> []
         \<and> provider mgr = Some p \<and> providerCallId call = Some pid
         \<and> name p \<noteq> utf16 ''twilio''
         \<and> onCallAnswered mgr call = speakInitialMessage pid mgr))
   \<and> ((\<exists>p. provider mgr = Some p \<and> name p = utf16 ''twilio'') \<longrightarrow>
        onCallAnswered mgr call = mgr)
   \<and> ((\<forall>msg. initialMessageOf call = JString msg \<longrightarrow> trim msg = []) \<longrightarrow>
        onCallAnswered mgr call = mgr)
   \<and> (initialMessageOf call = JString msg \<and> trim msg \<noteq> [] \<and> provider mgr = Some p
        \<and> name p \<noteq> utf16 ''twilio'' \<and> providerCallId call = Some pid \<and> pid \<noteq> [] \<longrightarrow>
        onCallAnswered mgr call = speakInitialMessage pid mgr
        \<and> onCallAnswered mgr call \<noteq> mgr)"
  by (auto simp: onCallAnswered_def maybeSpeakInitialMessageOnAnswered_def Let_def
      speakInitialMessage_neq split: js_value.splits option.splits if_splits)

lemma trim_examples:
  "trim (utf16 '' hi '') = utf16 ''hi''" "trim (utf16 ''  '') = []"
  by (simp_all add: utf16_def trim_def jsWhiteSpace_def)

lemma initialMessageOf_exampleCall:
  "initialMessageOf (exampleCall greeting) = greeting"
  by (simp add: initialMessageOf_def exampleCall_def)

lemma utf16_examples:
  "utf16 ''plivo'' \<noteq> utf16 ''twilio''" "utf16 ''CA1'' \<noteq> []" "utf16 ''hi'' \<noteq> []"
  by (simp_all add: utf16_def)

theorem initial_message_on_answered_witness:
  "speakInitialMessageCalls
      (onCallAnswered (exampleManager ''plivo'') (exampleCall (JString (utf16 '' hi ''))))
     = [utf16 ''CA1'']
   \<and> onCallAnswered (exampleManager ''twilio'') (exampleCall (JString (utf16 '' hi '')))
       = exampleManager ''twilio''
   \<and> onCallAnswered (exampleManager ''plivo'') (exampleCall (JString (utf16 ''  '')))
       = exampleManager ''plivo''"
proof (intro conjI)
  let ?hi = "exampleCall (JString (utf16 '' hi ''))"
  have "initialMessageOf ?hi = JString (utf16 '' hi '') \<and> trim (utf16 '' hi '') \<noteq> []
      \<and> provider (exampleManager ''plivo'') = Some \<lparr>name = utf16 ''plivo''\<rparr>
      \<and> name \<lparr>name = utf16 ''plivo''\<rparr> \<noteq> utf16 ''twilio''
      \<and> providerCallId ?hi = Some (utf16 ''CA1'') \<and> utf16 ''CA1'' \<noteq> []"
    by (simp add: initialMessageOf_exampleCall trim_examples utf16_examples)
       (simp add: exampleManager_def exampleCall_def)
  with initial_message_on_answered
      [where mgr = "exampleManager ''plivo''" and call = ?hi
         and msg = "utf16 '' hi ''" and p = "\<lparr>name = utf16 ''plivo''\<rparr>" and pid = "utf16 ''CA1''"]
  have "onCallAnswered (exampleManager ''plivo'') ?hi =
      speakInitialMessage (utf16 ''CA1'') (exampleManager ''plivo'')"
    by blast
  then show "speakInitialMessageCalls (onCallAnswered (exampleManager ''plivo'') ?hi)
      = [utf16 ''CA1'']"
    by (simp add: speakInitialMessage_def exampleManager_def)
next
  have "\<exists>p. provider (exampleManager ''twilio'') = Some p \<and> name p = utf16 ''twilio''"
    by (simp add: exampleManager_def)
  with initial_message_on_answered
      [where mgr = "exampleManager ''twilio''" and call = "exampleCall (JString (utf16 '' hi ''))"]
  show "onCallAnswered (exampleManager ''twilio'') (exampleCall (JString (utf16 '' hi '')))
       = exampleManager ''twilio''"
    by blast
next
  have "\<forall>msg. initialMessageOf (exampleCall (JString (utf16 ''  ''))) = JString msg
      \<longrightarrow> trim msg = []"
    by (simp add: initialMessageOf_exampleCall trim_examples)
  with initial_message_on_answered
      [where mgr = "exampleManager ''plivo''" and call = "exampleCall (JString (utf16 ''  ''))"]
  show "onCallAnswered (exampleManager ''plivo'') (exampleCall (JString (utf16 ''  '')))
       = exampleManager ''plivo''"
    by blast
qed

subsection \<open>Event processing and the call state machine\<close>

lemma laterRecord_refl: "laterRecord call call"
  by (simp add: laterRecord_def)

lemma laterRecord_trans:
  "laterRecord a b \<Longrightarrow> laterRecord b c \<Longrightarrow> laterRecord a c"
  by (auto simp: laterRecord_def)

lemma transitionTo_later: "laterRecord call (transitionTo new now reason call)"
  by (cases new; cases "status call") (simp_all add: laterRecord_def transitionTo_def)

lemma transitionTo_ended: "status call = Ended \<Longrightarrow> transitionTo new now reason call = call"
  by (simp add: transitionTo_def)

lemma transitionTo_backward:
  "statusRank new < statusRank (status call) \<Longrightarrow> transitionTo new now reason call = call"
  by (simp add: transitionTo_def)

lemma onCallAnswered_frame:
  "\<exists>l. onCallAnswered mgr call = mgr\<lparr>speakInitialMessageCalls := l\<rparr>"
proof (cases "onCallAnswered mgr call = mgr")
  case True
  then have "onCallAnswered mgr call = mgr\<lparr>speakInitialMessageCalls := speakInitialMessageCalls mgr\<rparr>"
    by simp
  then show ?thesis ..
next
  case False
  then obtain pid where "onCallAnswered mgr call = speakInitialMessage pid mgr"
    by (auto simp: onCallAnswered_def maybeSpeakInitialMessageOnAnswered_def Let_def
        split: option.splits if_splits)
  then show ?thesis by (auto simp: speakInitialMessage_def)
qed

lemma invokeHook_frame:
  "\<exists>h l. invokeHook hk ctx = ctx\<lparr>hookCalls := h, speakInitialMessageCalls := l\<rparr>"
proof (cases hk)
  case (OnCallAnswered call)
  let ?c = "ctx\<lparr>hookCalls := hookCalls ctx @ [OnCallAnswered call]\<rparr>"
  from onCallAnswered_frame [of ?c call] obtain l where
    "onCallAnswered ?c call = ?c\<lparr>speakInitialMessageCalls := l\<rparr>" ..
  with OnCallAnswered have
    "invokeHook hk ctx = ctx\<lparr>hookCalls := hookCalls ctx @ [OnCallAnswered call],
       speakInitialMessageCalls := l\<rparr>"
    by simp
  then show ?thesis by blast
next
  case (OnCallStartTranscript call)
  then have "invokeHook hk ctx = ctx\<lparr>hookCalls := hookCalls ctx @ [hk],
      speakInitialMessageCalls := speakInitialMessageCalls ctx\<rparr>"
    by simp
  then show ?thesis by blast
next
  case (OnTranscriptEntry call)
  then have "invokeHook hk ctx = ctx\<lparr>hookCalls := hookCalls ctx @ [hk],
      speakInitialMessageCalls := speakInitialMessageCalls ctx\<rparr>"
    by simp
  then show ?thesis by blast
next
  case (OnCallEnded call)
  then have "invokeHook hk ctx = ctx\<lparr>hookCalls := hookCalls ctx @ [hk],
      speakInitialMessageCalls := speakInitialMessageCalls ctx\<rparr>"
    by simp
  then show ?thesis by blast
qed

lemma invokeHook_fields [simp]:
  "activeCalls (invokeHook hk ctx) = activeCalls ctx"
  "providerCallIdMap (invokeHook hk ctx) = providerCallIdMap ctx"
  "processedEventIds (invokeHook hk ctx) = processedEventIds ctx"
  "nextCallId (invokeHook hk ctx) = nextCallId ctx"
proof -
  obtain h l where eq: "invokeHook hk ctx = ctx\<lparr>hookCalls := h, speakInitialMessageCalls := l\<rparr>"
    using invokeHook_frame by blast
  show "activeCalls (invokeHook hk ctx) = activeCalls ctx"
    "providerCallIdMap (invokeHook hk ctx) = providerCallIdMap ctx"
    "processedEventIds (invokeHook hk ctx) = processedEventIds ctx"
    "nextCallId (invokeHook hk ctx) = nextCallId ctx"
    unfolding eq by simp_all
qed

lemma applyTransition_fields [simp]:
  "processedEventIds (applyTransition cid new now reason ctx) = processedEventIds ctx"
  "nextCallId (applyTransition cid new now reason ctx) = nextCallId ctx"
  "activeCalls (applyTransition cid new now reason ctx) =
     (case activeCalls ctx cid of
        None \<Rightarrow> activeCalls ctx
      | Some call \<Rightarrow> (activeCalls ctx)(cid \<mapsto> transitionTo new now reason call))"
  by (simp_all add: applyTransition_def Let_def del: invokeHook.simps split: option.splits)

lemma applyTransition_noop:
  assumes "activeCalls ctx cid = Some call"
    and "status call = Ended \<or> statusRank new < statusRank (status call)"
  shows "applyTransition cid new now reason ctx = ctx"
proof -
  from assms(2) have "transitionTo new now reason call = call"
    by (auto simp: transitionTo_def)
  moreover have "ctx\<lparr>activeCalls := (activeCalls ctx)(cid \<mapsto> call)\<rparr> = ctx"
    using assms(1) by (simp add: map_upd_triv)
  ultimately show ?thesis using assms(1) by (simp add: applyTransition_def)
qed

lemma resolveCall_processedEventIds:
  "resolveCall ctx event = Some (cid, ctx2) \<Longrightarrow> processedEventIds ctx2 = processedEventIds ctx"
  by (auto simp: resolveCall_def split: option.splits if_splits)

lemma resolveCall_later:
  assumes "resolveCall ctx event = Some (cid0, ctx2)" and "freshIds ctx"
    and "activeCalls ctx cid = Some call"
  shows "\<exists>call2. activeCalls ctx2 cid = Some call2 \<and> laterRecord call call2"
  using assms
  by (auto simp: resolveCall_def freshIds_def laterRecord_def split: option.splits if_splits)

lemma resolveCall_freshIds:
  assumes "resolveCall ctx event = Some (cid0, ctx2)" and "freshIds ctx"
  shows "freshIds ctx2"
  using assms
  by (auto simp: resolveCall_def freshIds_def less_Suc_eq split: option.splits if_splits)

lemma applyTransition_later:
  assumes "activeCalls ctx cid = Some call"
  shows "\<exists>call'. activeCalls (applyTransition cid0 new now reason ctx) cid = Some call'
     \<and> laterRecord call call'"
proof (cases "cid0 = cid")
  case True
  with assms show ?thesis by (simp add: transitionTo_later)
next
  case False
  with assms show ?thesis by (simp add: laterRecord_refl split: option.splits)
qed

lemma applyTransition_freshIds:
  "freshIds ctx \<Longrightarrow> freshIds (applyTransition cid0 new now reason ctx)"
  by (auto simp: freshIds_def split: option.splits if_splits)

lemma processEvent_processedEventIds:
  "processedEventIds ctx \<subseteq> processedEventIds (processEvent ctx event)"
  "eventId event \<in> processedEventIds (processEvent ctx event)"
  by (auto simp: processEvent_def processManagerEvent_def Let_def
      dest: resolveCall_processedEventIds split: option.splits)

lemma processEvent_freshIds:
  assumes "freshIds ctx"
  shows "freshIds (processEvent ctx event)"
proof -
  let ?c1 = "ctx\<lparr>processedEventIds := insert (eventId event) (processedEventIds ctx)\<rparr>"
  have f1: "freshIds ?c1" using assms by (simp add: freshIds_def)
  show ?thesis
    using assms f1
    by (auto simp: processEvent_def processManagerEvent_def Let_def
        intro: applyTransition_freshIds dest: resolveCall_freshIds [OF _ f1]
        split: option.splits)
qed

lemma processEvent_later:
  assumes "freshIds ctx" and "activeCalls ctx cid = Some call"
  shows "\<exists>call'. activeCalls (processEvent ctx event) cid = Some call' \<and> laterRecord call call'"
proof (cases "eventId event \<in> processedEventIds ctx")
  case True
  with assms(2) show ?thesis
    by (simp add: processEvent_def processManagerEvent_def laterRecord_refl)
next
  case False
  let ?c1 = "ctx\<lparr>processedEventIds := insert (eventId event) (processedEventIds ctx)\<rparr>"
  have f1: "freshIds ?c1" using assms(1) by (simp add: freshIds_def)
  have a1: "activeCalls ?c1 cid = Some call" using assms(2) by simp
  show ?thesis
  proof (cases "resolveCall ?c1 event")
    case None
    with False a1 show ?thesis
      by (simp add: processEvent_def processManagerEvent_def Let_def laterRecord_refl)
  next
    case (Some r)
    obtain cid0 ctx2 where r: "r = (cid0, ctx2)" by (cases r)
    from resolveCall_later [OF Some [unfolded r] f1 a1] obtain call2 where
      c2: "activeCalls ctx2 cid = Some call2" and l2: "laterRecord call call2"
      by blast
    show ?thesis
    proof (cases "impliedStatus (kind event)")
      case None
      with False Some r c2 l2 show ?thesis
        by (simp add: processEvent_def processManagerEvent_def Let_def)
    next
      case (Some new)
      from applyTransition_later [OF c2, of cid0 new "payloadTimestamp event" "payloadEndReason event"]
      obtain call' where
        "activeCalls (applyTransition cid0 new (payloadTimestamp event) (payloadEndReason event) ctx2) cid
           = Some call'" and "laterRecord call2 call'"
        by blast
      with l2 Some False \<open>resolveCall ?c1 event = Some r\<close> r show ?thesis
        by (auto simp: processEvent_def processManagerEvent_def Let_def
            intro: laterRecord_trans)
    qed
  qed
qed

lemma managerStep_later:
  assumes "freshIds ctx" and "activeCalls ctx cid = Some call"
  shows "freshIds (managerStep op ctx)
     \<and> (\<exists>call'. activeCalls (managerStep op ctx) cid = Some call' \<and> laterRecord call call')"
proof (cases op)
  case (ProcessEvent event)
  with assms processEvent_freshIds [OF assms(1)] processEvent_later [OF assms] show ?thesis
    by simp
next
  case (EndCall cid0 now hangupOk)
  have "freshIds (snd (endCall cid0 now hangupOk ctx))"
    using assms(1) by (simp add: endCall_def applyTransition_freshIds split: option.splits)
  moreover have "\<exists>call'. activeCalls (snd (endCall cid0 now hangupOk ctx)) cid = Some call'
      \<and> laterRecord call call'"
  proof (cases "\<exists>c. activeCalls ctx cid0 = Some c \<and> status c \<noteq> Ended \<and> hangupOk")
    case True
    then have "snd (endCall cid0 now hangupOk ctx) = applyTransition cid0 Ended now Manual ctx"
      by (auto simp: endCall_def)
    with applyTransition_later [OF assms(2)] show ?thesis by simp
  next
    case False
    then have "snd (endCall cid0 now hangupOk ctx) = ctx"
      by (auto simp: endCall_def split: option.splits)
    with assms(2) show ?thesis by (simp add: laterRecord_refl)
  qed
  ultimately show ?thesis using EndCall by simp
qed

lemma runOps_Nil [simp]: "runOps [] ctx = ctx"
  by (simp add: runOps_def)

lemma runOps_Cons [simp]: "runOps (op # ops) ctx = runOps ops (managerStep op ctx)"
  by (simp add: runOps_def)

lemma runOps_later:
  assumes "freshIds ctx" and "activeCalls ctx cid = Some call"
  shows "\<exists>call'. activeCalls (runOps ops ctx) cid = Some call' \<and> laterRecord call call'"
  using assms
proof (induction ops arbitrary: ctx call)
  case Nil
  then show ?case by (simp add: laterRecord_refl)
next
  case (Cons op ops)
  from managerStep_later [OF Cons.prems, of op] obtain call1 where
    f: "freshIds (managerStep op ctx)"
    and a: "activeCalls (managerStep op ctx) cid = Some call1"
    and l: "laterRecord call call1"
    by blast
  from Cons.IH [OF f a] obtain call' where
    "activeCalls (runOps ops (managerStep op ctx)) cid = Some call'" "laterRecord call1 call'"
    by blast
  with l show ?case by (auto intro: laterRecord_trans)
qed

lemma managerStep_processedEventIds:
  "processedEventIds ctx \<subseteq> processedEventIds (managerStep op ctx)"
proof (cases op)
  case (ProcessEvent event)
  then show ?thesis using processEvent_processedEventIds(1) by simp
next
  case (EndCall cid now hangupOk)
  then show ?thesis by (simp add: endCall_def split: option.splits)
qed

lemma runOps_processedEventIds:
  "processedEventIds ctx \<subseteq> processedEventIds (runOps ops ctx)"
proof (induction ops arbitrary: ctx)
  case Nil
  show ?case by simp
next
  case (Cons op ops)
  from managerStep_processedEventIds [of ctx op] Cons.IH [of "managerStep op ctx"]
  show ?case by simp
qed

text \<open>
  Claim C2. Processing an event whose \<open>eventId\<close> is already in \<open>processedEventIds\<close>
  leaves the manager unchanged: its active calls and their records, the provider call id
  map, the set of processed ids, and the log of hook invocations. Hence redelivering an
  event, at once or after any further events and operations, is a no-op.
\<close>

theorem process_event_idempotent:
  "(eventId event \<in> processedEventIds mgr \<longrightarrow> processEvent mgr event = mgr)
   \<and> processEvent (runOps ops (processEvent mgr event)) event = runOps ops (processEvent mgr event)"
proof
  show "eventId event \<in> processedEventIds mgr \<longrightarrow> processEvent mgr event = mgr"
    by (simp add: processEvent_def processManagerEvent_def)
next
  have "eventId event \<in> processedEventIds (runOps ops (processEvent mgr event))"
    using processEvent_processedEventIds(2) [of event mgr]
      runOps_processedEventIds [of "processEvent mgr event" ops]
    by blast
  then show "processEvent (runOps ops (processEvent mgr event)) event =
      runOps ops (processEvent mgr event)"
    by (simp add: processEvent_def processManagerEvent_def)
qed

theorem process_event_idempotent_witness:
  "hookCalls (processEvent (exampleManager ''twilio'') (exampleEvent ''e1'' KAnswered)) =
     [OnCallAnswered
        \<lparr>callId = 0, providerCallId = Some (utf16 ''CA1''), direction = Inbound,
         status = Answered, endedAt = None, endReason = None, metadata = None\<rparr>,
      OnCallStartTranscript
        \<lparr>callId = 0, providerCallId = Some (utf16 ''CA1''), direction = Inbound,
         status = Answered, endedAt = None, endReason = None, metadata = None\<rparr>]
   \<and> utf16 ''e1'' \<in> processedEventIds
        (processEvent (exampleManager ''twilio'') (exampleEvent ''e1'' KAnswered))
   \<and> processEvent (processEvent (exampleManager ''twilio'') (exampleEvent ''e1'' KAnswered))
        (exampleEvent ''e1'' KAnswered)
      = processEvent (exampleManager ''twilio'') (exampleEvent ''e1'' KAnswered)"
proof (intro conjI)
  show "processEvent (processEvent (exampleManager ''twilio'') (exampleEvent ''e1'' KAnswered))
        (exampleEvent ''e1'' KAnswered)
      = processEvent (exampleManager ''twilio'') (exampleEvent ''e1'' KAnswered)"
    using process_event_idempotent
      [where mgr = "exampleManager ''twilio''" and event = "exampleEvent ''e1'' KAnswered"
         and ops = "[]"]
    by simp
qed (simp_all add: processEvent_def processManagerEvent_def resolveCall_def applyTransition_def
      transitionTo_def exampleManager_def exampleEvent_def onCallAnswered_def
      maybeSpeakInitialMessageOnAnswered_def initialMessageOf_def Let_def)

text \<open>
  Claim C3. Along any sequence of events and \<open>endCall\<close> operations, the status of a
  call record never moves backward, and once it is \<open>ended\<close> it stays \<open>ended\<close>, with
  the same end time and end reason. An event for a call that has ended, or one that
  would move the call backward, is a no-op: only its id enters the dedup set, and the
  result is a manager state, not an error. \<open>endCall\<close> on an ended call succeeds and
  changes nothing.
\<close>

theorem status_monotone_ended_terminal:
  assumes "freshIds mgr" and "activeCalls mgr cid = Some call"
  shows "(\<exists>call'. activeCalls (runOps ops mgr) cid = Some call'
            \<and> statusRank (status call) \<le> statusRank (status call')
            \<and> (status call = Ended \<longrightarrow>
                 status call' = Ended \<and> endedAt call' = endedAt call
                 \<and> endReason call' = endReason call))
     \<and> (providerCallIdMap mgr (eventProviderCallId event) = Some cid
          \<and> eventId event \<notin> processedEventIds mgr
          \<and> (status call = Ended
               \<or> (\<exists>new. impliedStatus (kind event) = Some new
                     \<and> statusRank new < statusRank (status call))) \<longrightarrow>
          processEvent mgr event =
            mgr\<lparr>processedEventIds := insert (eventId event) (processedEventIds mgr)\<rparr>)
     \<and> (status call = Ended \<longrightarrow> endCall cid now hangupOk mgr = (True, mgr))"
proof (intro conjI impI)
  from runOps_later [OF assms, of ops]
  show "\<exists>call'. activeCalls (runOps ops mgr) cid = Some call'
            \<and> statusRank (status call) \<le> statusRank (status call')
            \<and> (status call = Ended \<longrightarrow>
                 status call' = Ended \<and> endedAt call' = endedAt call
                 \<and> endReason call' = endReason call)"
    by (simp add: laterRecord_def)
next
  assume "status call = Ended"
  with assms(2) show "endCall cid now hangupOk mgr = (True, mgr)"
    by (simp add: endCall_def)
next
  assume a: "providerCallIdMap mgr (eventProviderCallId event) = Some cid
          \<and> eventId event \<notin> processedEventIds mgr
          \<and> (status call = Ended
               \<or> (\<exists>new. impliedStatus (kind event) = Some new
                     \<and> statusRank new < statusRank (status call)))"
  let ?c1 = "mgr\<lparr>processedEventIds := insert (eventId event) (processedEventIds mgr)\<rparr>"
  have r: "resolveCall ?c1 event = Some (cid, ?c1)"
    using a by (simp add: resolveCall_def)
  have c: "activeCalls ?c1 cid = Some call"
    using assms(2) by simp
  have "applyTransition cid new (payloadTimestamp event) (payloadEndReason event) ?c1 = ?c1"
    if "impliedStatus (kind event) = Some new" for new
    using a that by (intro applyTransition_noop [OF c]) auto
  with a r show "processEvent mgr event = ?c1"
    by (simp add: processEvent_def processManagerEvent_def Let_def split: option.splits)
qed

theorem status_monotone_ended_terminal_witness:
  "freshIds endedManager
   \<and> activeCalls endedManager 0 = Some endedCall
   \<and> status endedCall = Ended
   \<and> activeCalls
        (runOps [ProcessEvent (exampleEvent ''e7'' KAnswered), EndCall 0 8 True,
                 ProcessEvent (exampleEvent ''e8'' KEnded)] endedManager) 0
      = Some endedCall
   \<and> processEvent endedManager (exampleEvent ''e7'' KAnswered) =
        endedManager\<lparr>processedEventIds := {utf16 ''e7''}\<rparr>
   \<and> endCall 0 8 True endedManager = (True, endedManager)"
proof -
  have f: "freshIds endedManager"
    by (simp add: freshIds_def endedManager_def)
  have a: "activeCalls endedManager 0 = Some endedCall"
    by (simp add: endedManager_def)
  have e: "status endedCall = Ended"
    by (simp add: endedCall_def)
  have m: "providerCallIdMap endedManager (eventProviderCallId (exampleEvent ''e7'' KAnswered)) = Some 0"
    "eventId (exampleEvent ''e7'' KAnswered) \<notin> processedEventIds endedManager"
    "insert (eventId (exampleEvent ''e7'' KAnswered)) (processedEventIds endedManager) = {utf16 ''e7''}"
    by (simp_all add: endedManager_def exampleEvent_def exampleManager_def)
  note inst = status_monotone_ended_terminal [OF f a,
      where ops = "[ProcessEvent (exampleEvent ''e7'' KAnswered), EndCall 0 8 True,
                 ProcessEvent (exampleEvent ''e8'' KEnded)]"
        and event = "exampleEvent ''e7'' KAnswered" and now = 8 and hangupOk = True]
  from inst e m have "processEvent endedManager (exampleEvent ''e7'' KAnswered) =
        endedManager\<lparr>processedEventIds := {utf16 ''e7''}\<rparr>"
    by simp
  moreover from inst e have "endCall 0 8 True endedManager = (True, endedManager)"
    by blast
  moreover have "activeCalls
        (runOps [ProcessEvent (exampleEvent ''e7'' KAnswered), EndCall 0 8 True,
                 ProcessEvent (exampleEvent ''e8'' KEnded)] endedManager) 0
      = Some endedCall"
    by (simp add: processEvent_def processManagerEvent_def resolveCall_def applyTransition_def
        transitionTo_def endCall_def endedManager_def endedCall_def exampleManager_def
        exampleEvent_def exampleCall_def utf16_def Let_def)
  ultimately show ?thesis using f a e by blast
qed

end
